theory Spec2Isabelle
  imports Complex_Main
begin

section \<open>Food manufacture: the model builder of \<^verbatim>\<open>food_manufacture/model.py\<close>\<close>

text \<open>
  The builder assembles a Pyomo model (index sets, variables, constraint rows, one
  objective) from an oil catalog, a price table and a dictionary of scalar parameters.
  The embedding keeps that shape: \<open>build\<close> returns either the Python exception that
  aborts the construction or the assembled model, and every rule of the source is one
  function that returns the row it builds.

  Numbers are real numbers: the rounding of Python floats is not modelled.
  Index labels of the two data frames are taken to be pairwise distinct
  (\<open>unique_labels\<close>); what pandas and Pyomo do with a repeated label is decided
  outside this repository.
\<close>

subsection \<open>Python values, exceptions\<close>

type_synonym oil = string
type_synonym period = int

datatype var =
    Buy oil period
  | Use oil period
  | Stock oil period
  | Produce period
  | IsUsed oil period

datatype key = Param string | Column oil | Index var

datatype py_error =
    KeyError key
  | ValueError string
  | IndexError
  | AttributeError

definition andThen :: "'e + 'a \<Rightarrow> ('a \<Rightarrow> 'e + 'b) \<Rightarrow> 'e + 'b" where
  "andThen x f = (case x of Inl e \<Rightarrow> Inl e | Inr v \<Rightarrow> f v)"

text \<open>A comprehension or a generator: the elements are computed in order and the first
  exception ends the whole loop.\<close>

fun traverse :: "('a \<Rightarrow> 'e + 'b) \<Rightarrow> 'a list \<Rightarrow> 'e + 'b list" where
  "traverse f [] = Inr []"
| "traverse f (x # xs) =
     (case f x of
        Inl e \<Rightarrow> Inl e
      | Inr y \<Rightarrow> (case traverse f xs of Inl e \<Rightarrow> Inl e | Inr ys \<Rightarrow> Inr (y # ys)))"

subsection \<open>Reference data: \<^verbatim>\<open>data.py\<close>\<close>

record oil_row =
  oil_id :: oil
  oil_type :: string
  hardness :: real

type_synonym oils_df = "oil_row list"

text \<open>The price frame: row labels (months), column labels (oils), one cell per pair.\<close>

record prices_df =
  p_index :: "period list"
  p_columns :: "oil list"
  p_cell :: "period \<Rightarrow> oil \<Rightarrow> real"

type_synonym params = "string \<rightharpoonup> real"

definition load_oils_data :: oils_df where
  "load_oils_data =
    [\<lparr>oil_id = ''VEG1'', oil_type = ''Veg'', hardness = 88 / 10\<rparr>,
     \<lparr>oil_id = ''VEG2'', oil_type = ''Veg'', hardness = 61 / 10\<rparr>,
     \<lparr>oil_id = ''OIL1'', oil_type = ''NonVeg'', hardness = 2\<rparr>,
     \<lparr>oil_id = ''OIL2'', oil_type = ''NonVeg'', hardness = 42 / 10\<rparr>,
     \<lparr>oil_id = ''OIL3'', oil_type = ''NonVeg'', hardness = 5\<rparr>]"

definition price_columns :: "(oil \<times> real list) list" where
  "price_columns =
    [(''VEG1'', [110, 130, 110, 120, 100, 90]),
     (''VEG2'', [120, 130, 140, 110, 120, 100]),
     (''OIL1'', [130, 110, 130, 120, 150, 140]),
     (''OIL2'', [110, 90, 100, 120, 110, 80]),
     (''OIL3'', [115, 115, 95, 125, 105, 135])]"

definition load_market_prices :: prices_df where
  "load_market_prices =
    \<lparr>p_index = [1, 2, 3, 4, 5, 6],
     p_columns = map fst price_columns,
     p_cell = (\<lambda>t oi. case map_of price_columns oi of
                          None \<Rightarrow> 0
                        | Some xs \<Rightarrow> xs ! nat (t - 1))\<rparr>"

definition get_parameters :: params where
  "get_parameters = map_of
    [(''storage_cost_per_ton'', 5),
     (''product_sales_price'', 150),
     (''max_veg_refine_per_month'', 200),
     (''max_nonveg_refine_per_month'', 250),
     (''storage_capacity_per_oil'', 1000),
     (''initial_stock'', 500),
     (''target_final_stock'', 500),
     (''min_hardness'', 3),
     (''max_hardness'', 6),
     (''min_usage_if_used'', 20),
     (''max_ingredients_per_month'', 3)]"

text \<open>\<^verbatim>\<open>params[k]\<close>, \<^verbatim>\<open>prices.loc[t, o]\<close> and \<^verbatim>\<open>oils.loc[o, 'hardness']\<close>: a missing
  label raises \<^verbatim>\<open>KeyError\<close>.\<close>

definition param :: "params \<Rightarrow> string \<Rightarrow> py_error + real" where
  "param ps k = (case ps k of None \<Rightarrow> Inl (KeyError (Param k)) | Some v \<Rightarrow> Inr v)"

definition prices_loc :: "prices_df \<Rightarrow> period \<Rightarrow> oil \<Rightarrow> py_error + real" where
  "prices_loc prices t oi =
     (if t \<in> set (p_index prices) \<and> oi \<in> set (p_columns prices)
      then Inr (p_cell prices t oi) else Inl (KeyError (Column oi)))"

definition oils_loc_hardness :: "oils_df \<Rightarrow> oil \<Rightarrow> py_error + real" where
  "oils_loc_hardness oils oi =
     (case map_of (map (\<lambda>r. (oil_id r, hardness r)) oils) oi of
        None \<Rightarrow> Inl (KeyError (Column oi))
      | Some h \<Rightarrow> Inr h)"

definition unique_labels :: "oils_df \<Rightarrow> prices_df \<Rightarrow> bool" where
  "unique_labels oils prices \<longleftrightarrow>
     distinct (map oil_id oils) \<and> distinct (p_index prices) \<and> distinct (p_columns prices)"

subsection \<open>Expressions and rows\<close>

text \<open>
  \<open>Const\<close> is a plain Python number; every other expression is a Pyomo expression.
  Arithmetic on two plain numbers is Python's and gives a plain number; as soon as a
  variable takes part the result is a Pyomo expression. A comparison of two plain
  numbers is a Python \<^verbatim>\<open>bool\<close>, any other comparison is a relational expression.
\<close>

datatype expr =
    Const real
  | V var
  | Add expr expr
  | Sub expr expr
  | Mul expr expr

fun eval :: "(var \<Rightarrow> real) \<Rightarrow> expr \<Rightarrow> real" where
  "eval a (Const c) = c"
| "eval a (V v) = a v"
| "eval a (Add e1 e2) = eval a e1 + eval a e2"
| "eval a (Sub e1 e2) = eval a e1 - eval a e2"
| "eval a (Mul e1 e2) = eval a e1 * eval a e2"

fun py_add :: "expr \<Rightarrow> expr \<Rightarrow> expr" where
  "py_add (Const x) (Const y) = Const (x + y)"
| "py_add e1 e2 = Add e1 e2"

fun py_sub :: "expr \<Rightarrow> expr \<Rightarrow> expr" where
  "py_sub (Const x) (Const y) = Const (x - y)"
| "py_sub e1 e2 = Sub e1 e2"

fun py_mul :: "expr \<Rightarrow> expr \<Rightarrow> expr" where
  "py_mul (Const x) (Const y) = Const (x * y)"
| "py_mul e1 e2 = Mul e1 e2"

text \<open>The builtin \<^verbatim>\<open>sum\<close>: starts from the integer 0 and adds from the left.\<close>

definition py_sum :: "expr list \<Rightarrow> expr" where
  "py_sum es = foldl py_add (Const 0) es"

datatype rel = Equal | LessEq | GreaterEq

datatype rule_result = PyBool bool | Relational expr rel expr

fun holds :: "rel \<Rightarrow> real \<Rightarrow> real \<Rightarrow> bool" where
  "holds Equal x y = (x = y)"
| "holds LessEq x y = (x \<le> y)"
| "holds GreaterEq x y = (x \<ge> y)"

fun py_rel :: "rel \<Rightarrow> expr \<Rightarrow> expr \<Rightarrow> rule_result" where
  "py_rel r (Const x) (Const y) = PyBool (holds r x y)"
| "py_rel r e1 e2 = Relational e1 r e2"

datatype idx = OT oil period | Oi oil | Ti period

record row =
  r_name :: string
  r_index :: idx
  r_lhs :: expr
  r_rel :: rel
  r_rhs :: expr

text \<open>
  \<^verbatim>\<open>pyo.Constraint(index, rule=...)\<close> on a concrete model calls the rule once per index,
  in the order of the index set. A rule that returns a Python \<^verbatim>\<open>bool\<close> instead of a
  relational expression is refused with \<^verbatim>\<open>ValueError\<close>.
\<close>

definition Constraint ::
  "string \<Rightarrow> ('i \<Rightarrow> idx) \<Rightarrow> 'i list \<Rightarrow> ('i \<Rightarrow> py_error + rule_result) \<Rightarrow> py_error + row list" where
  "Constraint name tag index rule =
     traverse (\<lambda>i. case rule i of
                      Inl e \<Rightarrow> Inl e
                    | Inr (PyBool b) \<Rightarrow> Inl (ValueError name)
                    | Inr (Relational l r rhs) \<Rightarrow>
                        Inr \<lparr>r_name = name, r_index = tag i, r_lhs = l, r_rel = r, r_rhs = rhs\<rparr>)
       index"

subsection \<open>Variables\<close>

datatype domain = NonNegativeReals | Binary

record var_decl =
  v_var :: var
  v_domain :: domain
  v_bounds :: "(real \<times> real) option"

text \<open>\<^verbatim>\<open>model.X[o, t]\<close> on a variable indexed by \<open>O \<times> T\<close>: \<^verbatim>\<open>KeyError\<close> outside the
  index set.\<close>

definition at_OT :: "oil list \<Rightarrow> period list \<Rightarrow> (oil \<Rightarrow> period \<Rightarrow> var) \<Rightarrow> oil \<Rightarrow> period \<Rightarrow> py_error + expr" where
  "at_OT Os T X oi t =
     (if oi \<in> set Os \<and> t \<in> set T then Inr (V (X oi t)) else Inl (KeyError (Index (X oi t))))"

definition at_T :: "period list \<Rightarrow> period \<Rightarrow> py_error + expr" where
  "at_T T t = (if t \<in> set T then Inr (V (Produce t)) else Inl (KeyError (Index (Produce t))))"

text \<open>\<^verbatim>\<open>model.T.first()\<close> and \<^verbatim>\<open>model.T.last()\<close>: \<^verbatim>\<open>IndexError\<close> on the empty set.\<close>

definition set_first :: "period list \<Rightarrow> py_error + period" where
  "set_first T = (case T of [] \<Rightarrow> Inl IndexError | t # _ \<Rightarrow> Inr t)"

definition set_last :: "period list \<Rightarrow> py_error + period" where
  "set_last T = (if T = [] then Inl IndexError else Inr (last T))"

subsection \<open>The rules of \<^verbatim>\<open>FoodManufactureModel.build\<close>\<close>

definition balance_rule :: "params \<Rightarrow> oil list \<Rightarrow> period list \<Rightarrow> oil \<times> period \<Rightarrow> py_error + rule_result" where
  "balance_rule ps Os T = (\<lambda>(oi, t).
     andThen (set_first T) (\<lambda>first.
     andThen (if t = first
              then andThen (param ps ''initial_stock'') (\<lambda>c. Inr (Const c))
              else at_OT Os T Stock oi (t - 1)) (\<lambda>prev_stock.
     andThen (at_OT Os T Stock oi t) (\<lambda>stock.
     andThen (at_OT Os T Buy oi t) (\<lambda>buy.
     andThen (at_OT Os T Use oi t) (\<lambda>use.
     Inr (py_rel Equal stock (py_sub (py_add prev_stock buy) use))))))))"

definition final_stock_rule :: "params \<Rightarrow> oil list \<Rightarrow> period list \<Rightarrow> oil \<Rightarrow> py_error + rule_result" where
  "final_stock_rule ps Os T oi =
     andThen (set_last T) (\<lambda>last.
     andThen (at_OT Os T Stock oi last) (\<lambda>stock.
     andThen (param ps ''target_final_stock'') (\<lambda>target.
     Inr (py_rel Equal stock (Const target)))))"

definition capacity_rule ::
  "oils_df \<Rightarrow> oil list \<Rightarrow> period list \<Rightarrow> period \<Rightarrow> string \<Rightarrow> real \<Rightarrow> py_error + rule_result" where
  "capacity_rule oils Os T t ty limit =
     (let relevant_oils = map oil_id (filter (\<lambda>r. oil_type r = ty) oils) in
      andThen (traverse (\<lambda>oi. at_OT Os T Use oi t) relevant_oils) (\<lambda>uses.
      Inr (py_rel LessEq (py_sum uses) (Const limit))))"

definition production_def :: "oil list \<Rightarrow> period list \<Rightarrow> period \<Rightarrow> py_error + rule_result" where
  "production_def Os T t =
     andThen (at_T T t) (\<lambda>produce.
     andThen (traverse (\<lambda>oi. at_OT Os T Use oi t) Os) (\<lambda>uses.
     Inr (py_rel Equal produce (py_sum uses))))"

definition total_hardness :: "oils_df \<Rightarrow> oil list \<Rightarrow> period list \<Rightarrow> period \<Rightarrow> py_error + expr" where
  "total_hardness oils Os T t =
     andThen (traverse (\<lambda>oi. andThen (oils_loc_hardness oils oi) (\<lambda>h.
                             andThen (at_OT Os T Use oi t) (\<lambda>use.
                             Inr (py_mul (Const h) use)))) Os) (\<lambda>terms.
     Inr (py_sum terms))"

definition hardness_min_rule ::
  "params \<Rightarrow> oils_df \<Rightarrow> oil list \<Rightarrow> period list \<Rightarrow> period \<Rightarrow> py_error + rule_result" where
  "hardness_min_rule ps oils Os T t =
     andThen (total_hardness oils Os T t) (\<lambda>total.
     andThen (param ps ''min_hardness'') (\<lambda>h.
     andThen (at_T T t) (\<lambda>produce.
     Inr (py_rel GreaterEq total (py_mul (Const h) produce)))))"

definition hardness_max_rule ::
  "params \<Rightarrow> oils_df \<Rightarrow> oil list \<Rightarrow> period list \<Rightarrow> period \<Rightarrow> py_error + rule_result" where
  "hardness_max_rule ps oils Os T t =
     andThen (total_hardness oils Os T t) (\<lambda>total.
     andThen (param ps ''max_hardness'') (\<lambda>h.
     andThen (at_T T t) (\<lambda>produce.
     Inr (py_rel LessEq total (py_mul (Const h) produce)))))"

definition big_m :: real where
  "big_m = 250"

definition link_rule :: "oil list \<Rightarrow> period list \<Rightarrow> oil \<times> period \<Rightarrow> py_error + rule_result" where
  "link_rule Os T = (\<lambda>(oi, t).
     andThen (at_OT Os T Use oi t) (\<lambda>use.
     andThen (at_OT Os T IsUsed oi t) (\<lambda>is_used.
     Inr (py_rel LessEq use (py_mul (Const big_m) is_used)))))"

definition min_usage_rule :: "params \<Rightarrow> oil list \<Rightarrow> period list \<Rightarrow> oil \<times> period \<Rightarrow> py_error + rule_result" where
  "min_usage_rule ps Os T = (\<lambda>(oi, t).
     andThen (at_OT Os T Use oi t) (\<lambda>use.
     andThen (param ps ''min_usage_if_used'') (\<lambda>c.
     andThen (at_OT Os T IsUsed oi t) (\<lambda>is_used.
     Inr (py_rel GreaterEq use (py_mul (Const c) is_used))))))"

definition max_ingredients_rule :: "params \<Rightarrow> oil list \<Rightarrow> period list \<Rightarrow> period \<Rightarrow> py_error + rule_result" where
  "max_ingredients_rule ps Os T t =
     andThen (traverse (\<lambda>oi. at_OT Os T IsUsed oi t) Os) (\<lambda>used.
     andThen (param ps ''max_ingredients_per_month'') (\<lambda>c.
     Inr (py_rel LessEq (py_sum used) (Const c))))"

definition logic_veg1_rule :: "oil list \<Rightarrow> period list \<Rightarrow> period \<Rightarrow> py_error + rule_result" where
  "logic_veg1_rule Os T t =
     andThen (at_OT Os T IsUsed ''VEG1'' t) (\<lambda>dependent.
     andThen (at_OT Os T IsUsed ''OIL3'' t) (\<lambda>prerequisite.
     Inr (py_rel LessEq dependent prerequisite)))"

definition logic_veg2_rule :: "oil list \<Rightarrow> period list \<Rightarrow> period \<Rightarrow> py_error + rule_result" where
  "logic_veg2_rule Os T t =
     andThen (at_OT Os T IsUsed ''VEG2'' t) (\<lambda>dependent.
     andThen (at_OT Os T IsUsed ''OIL3'' t) (\<lambda>prerequisite.
     Inr (py_rel LessEq dependent prerequisite)))"

definition revenue :: "params \<Rightarrow> period list \<Rightarrow> py_error + expr" where
  "revenue ps T =
     andThen (traverse (\<lambda>t. andThen (at_T T t) (\<lambda>produce.
                             andThen (param ps ''product_sales_price'') (\<lambda>c.
                             Inr (py_mul produce (Const c))))) T) (\<lambda>terms.
     Inr (py_sum terms))"

definition purchase_cost :: "prices_df \<Rightarrow> oil list \<Rightarrow> period list \<Rightarrow> py_error + expr" where
  "purchase_cost prices Os T =
     andThen (traverse (\<lambda>(oi, t). andThen (at_OT Os T Buy oi t) (\<lambda>buy.
                                  andThen (prices_loc prices t oi) (\<lambda>c.
                                  Inr (py_mul buy (Const c))))) (List.product Os T)) (\<lambda>terms.
     Inr (py_sum terms))"

definition storage_cost :: "params \<Rightarrow> oil list \<Rightarrow> period list \<Rightarrow> py_error + expr" where
  "storage_cost ps Os T =
     andThen (traverse (\<lambda>(oi, t). andThen (at_OT Os T Stock oi t) (\<lambda>stock.
                                  andThen (param ps ''storage_cost_per_ton'') (\<lambda>c.
                                  Inr (py_mul stock (Const c))))) (List.product Os T)) (\<lambda>terms.
     Inr (py_sum terms))"

definition objective_rule :: "params \<Rightarrow> prices_df \<Rightarrow> oil list \<Rightarrow> period list \<Rightarrow> py_error + expr" where
  "objective_rule ps prices Os T =
     andThen (revenue ps T) (\<lambda>rev.
     andThen (purchase_cost prices Os T) (\<lambda>purchase.
     andThen (storage_cost ps Os T) (\<lambda>storage.
     Inr (py_sub (py_sub rev purchase) storage))))"

subsection \<open>The model and \<^verbatim>\<open>build\<close>\<close>

datatype sense = maximize | minimize

record model =
  m_T :: "period list"
  m_O :: "oil list"
  m_vars :: "var_decl list"
  m_rows :: "row list"
  m_objective :: expr
  m_sense :: sense
  m_value :: "var \<rightharpoonup> real"

definition declare_vars :: "bool \<Rightarrow> oil list \<Rightarrow> period list \<Rightarrow> real \<Rightarrow> var_decl list" where
  "declare_vars use_integer_logic Os T cap =
     map (\<lambda>(oi, t). \<lparr>v_var = Buy oi t, v_domain = NonNegativeReals, v_bounds = None\<rparr>) (List.product Os T)
   @ map (\<lambda>(oi, t). \<lparr>v_var = Use oi t, v_domain = NonNegativeReals, v_bounds = None\<rparr>) (List.product Os T)
   @ map (\<lambda>(oi, t). \<lparr>v_var = Stock oi t, v_domain = NonNegativeReals, v_bounds = Some (0, cap)\<rparr>)
       (List.product Os T)
   @ map (\<lambda>t. \<lparr>v_var = Produce t, v_domain = NonNegativeReals, v_bounds = None\<rparr>) T
   @ (if use_integer_logic
      then map (\<lambda>(oi, t). \<lparr>v_var = IsUsed oi t, v_domain = Binary, v_bounds = None\<rparr>) (List.product Os T)
      else [])"

text \<open>The rows every mode has, in the order the source builds them.\<close>

definition part1 :: "params \<Rightarrow> oils_df \<Rightarrow> oil list \<Rightarrow> period list \<Rightarrow> py_error + row list" where
  "part1 ps oils Os T =
     andThen (Constraint ''Balance'' (\<lambda>(oi, t). OT oi t) (List.product Os T) (balance_rule ps Os T))
       (\<lambda>Balance.
     andThen (Constraint ''FinalStock'' Oi Os (final_stock_rule ps Os T)) (\<lambda>FinalStock.
     andThen (Constraint ''VegCapacity'' Ti T
                (\<lambda>t. andThen (param ps ''max_veg_refine_per_month'')
                        (capacity_rule oils Os T t ''Veg''))) (\<lambda>VegCapacity.
     andThen (Constraint ''NonVegCapacity'' Ti T
                (\<lambda>t. andThen (param ps ''max_nonveg_refine_per_month'')
                        (capacity_rule oils Os T t ''NonVeg''))) (\<lambda>NonVegCapacity.
     andThen (Constraint ''ProductionDef'' Ti T (production_def Os T)) (\<lambda>ProductionDef.
     andThen (Constraint ''HardnessMin'' Ti T (hardness_min_rule ps oils Os T)) (\<lambda>HardnessMin.
     andThen (Constraint ''HardnessMax'' Ti T (hardness_max_rule ps oils Os T)) (\<lambda>HardnessMax.
     Inr (Balance @ FinalStock @ VegCapacity @ NonVegCapacity @ ProductionDef
          @ HardnessMin @ HardnessMax))))))))"

text \<open>The rows of the \<^verbatim>\<open>if use_integer_logic:\<close> block.\<close>

definition part2 :: "params \<Rightarrow> oil list \<Rightarrow> period list \<Rightarrow> py_error + row list" where
  "part2 ps Os T =
     andThen (Constraint ''LinkVars'' (\<lambda>(oi, t). OT oi t) (List.product Os T) (link_rule Os T))
       (\<lambda>LinkVars.
     andThen (Constraint ''MinThreshold'' (\<lambda>(oi, t). OT oi t) (List.product Os T)
                (min_usage_rule ps Os T)) (\<lambda>MinThreshold.
     andThen (Constraint ''MaxIngredients'' Ti T (max_ingredients_rule ps Os T)) (\<lambda>MaxIngredients.
     andThen (Constraint ''LogicVeg1'' Ti T (logic_veg1_rule Os T)) (\<lambda>LogicVeg1.
     andThen (Constraint ''LogicVeg2'' Ti T (logic_veg2_rule Os T)) (\<lambda>LogicVeg2.
     Inr (LinkVars @ MinThreshold @ MaxIngredients @ LogicVeg1 @ LogicVeg2))))))"

definition build :: "bool \<Rightarrow> oils_df \<Rightarrow> prices_df \<Rightarrow> params \<Rightarrow> py_error + model" where
  "build use_integer_logic oils prices ps =
     (let T = p_index prices; Os = map oil_id oils in
      andThen (param ps ''storage_capacity_per_oil'') (\<lambda>cap.
      andThen (part1 ps oils Os T) (\<lambda>rows1.
      andThen (if use_integer_logic then part2 ps Os T else Inr []) (\<lambda>rows2.
      andThen (objective_rule ps prices Os T) (\<lambda>obj.
      Inr \<lparr>m_T = T, m_O = Os,
           m_vars = declare_vars use_integer_logic Os T cap,
           m_rows = rows1 @ rows2,
           m_objective = obj,
           m_sense = maximize,
           m_value = Map.empty\<rparr>)))))"

subsection \<open>Assignments\<close>

definition in_domain :: "var_decl \<Rightarrow> real \<Rightarrow> bool" where
  "in_domain d x \<longleftrightarrow>
     (case v_domain d of NonNegativeReals \<Rightarrow> 0 \<le> x | Binary \<Rightarrow> x = 0 \<or> x = 1)
     \<and> (case v_bounds d of None \<Rightarrow> True | Some (lo, hi) \<Rightarrow> lo \<le> x \<and> x \<le> hi)"

definition satisfies :: "(var \<Rightarrow> real) \<Rightarrow> row \<Rightarrow> bool" where
  "satisfies a r = holds (r_rel r) (eval a (r_lhs r)) (eval a (r_rhs r))"

definition feasible :: "model \<Rightarrow> (var \<Rightarrow> real) \<Rightarrow> bool" where
  "feasible m a \<longleftrightarrow>
     list_all (\<lambda>d. in_domain d (a (v_var d))) (m_vars m) \<and> list_all (satisfies a) (m_rows m)"

definition objective_value :: "model \<Rightarrow> (var \<Rightarrow> real) \<Rightarrow> real" where
  "objective_value m a = eval a (m_objective m)"

subsection \<open>The wrapper object: \<^verbatim>\<open>__init__\<close>, \<^verbatim>\<open>build\<close> as a method, \<^verbatim>\<open>solve\<close>\<close>

record result_row =
  res_Month :: period
  res_Oil :: oil
  res_Buy :: real
  res_Use :: real
  res_Stock :: real

record FoodManufactureModel =
  self_oils :: oils_df
  self_prices :: prices_df
  self_params :: params
  self_model :: "model option"
  self_result_data :: "result_row list"

definition init :: "oils_df \<Rightarrow> prices_df \<Rightarrow> params \<Rightarrow> FoodManufactureModel" where
  "init oils_df prices_df ps =
     \<lparr>self_oils = oils_df, self_prices = prices_df, self_params = ps,
      self_model = None, self_result_data = []\<rparr>"

text \<open>The method assigns \<^verbatim>\<open>self.model\<close> in its last statement: an exception leaves
  the object as it was.\<close>

definition build_method ::
  "bool \<Rightarrow> FoodManufactureModel \<Rightarrow> (py_error + unit) \<times> FoodManufactureModel" where
  "build_method use_integer_logic self =
     (case build use_integer_logic (self_oils self) (self_prices self) (self_params self) of
        Inl e \<Rightarrow> (Inl e, self)
      | Inr m \<Rightarrow> (Inr (), self\<lparr>self_model := Some m\<rparr>))"

text \<open>
  The solver is an external program. It is a parameter here: given the model it either
  raises or returns its result object together with the values it loads into the
  model's variables. \<^verbatim>\<open>pyo.value\<close> of a variable without a value raises
  \<^verbatim>\<open>ValueError\<close>.
\<close>

type_synonym 'r solver = "model \<Rightarrow> py_error + 'r \<times> (var \<rightharpoonup> real)"

definition pyo_value :: "model \<Rightarrow> var \<Rightarrow> py_error + real" where
  "pyo_value m v =
     (case m_value m v of None \<Rightarrow> Inl (ValueError ''No value'') | Some x \<Rightarrow> Inr x)"

definition extract_results :: "model \<Rightarrow> py_error + result_row list" where
  "extract_results m =
     traverse (\<lambda>(t, oi).
        andThen (pyo_value m (Buy oi t)) (\<lambda>b.
        andThen (pyo_value m (Use oi t)) (\<lambda>u.
        andThen (pyo_value m (Stock oi t)) (\<lambda>s.
        Inr \<lparr>res_Month = t, res_Oil = oi, res_Buy = b, res_Use = u, res_Stock = s\<rparr>))))
       (List.product (m_T m) (m_O m))"

definition solve ::
  "'r solver \<Rightarrow> FoodManufactureModel \<Rightarrow> (py_error + 'r) \<times> FoodManufactureModel" where
  "solve solver self =
     (case self_model self of
        None \<Rightarrow> (Inl AttributeError, self)
      | Some m \<Rightarrow>
          (case solver m of
             Inl e \<Rightarrow> (Inl e, self)
           | Inr (result, vals) \<Rightarrow>
               (let m' = m\<lparr>m_value := vals\<rparr>; self' = self\<lparr>self_model := Some m'\<rparr> in
                case extract_results m' of
                  Inl e \<Rightarrow> (Inl e, self')
                | Inr results \<Rightarrow> (Inr result, self'\<lparr>self_result_data := results\<rparr>))))"

subsection \<open>The two scenarios of \<^verbatim>\<open>main.py\<close>\<close>

definition reference_lp :: model where
  "reference_lp = projr (build False load_oils_data load_market_prices get_parameters)"

definition reference_mip :: model where
  "reference_mip = projr (build True load_oils_data load_market_prices get_parameters)"

text \<open>The plan that buys and refines nothing and keeps the initial 500 tons of each oil.\<close>

fun idle :: "var \<Rightarrow> real" where
  "idle (Stock oi t) = 500"
| "idle v = 0"

text \<open>A plan that refines 100 tons of VEG2 and of OIL3 every month, buying what it uses.\<close>

fun steady :: "var \<Rightarrow> real" where
  "steady (Buy oi t) = (if oi = ''VEG2'' \<or> oi = ''OIL3'' then 100 else 0)"
| "steady (Use oi t) = (if oi = ''VEG2'' \<or> oi = ''OIL3'' then 100 else 0)"
| "steady (Stock oi t) = 500"
| "steady (Produce t) = 200"
| "steady (IsUsed oi t) = (if oi = ''VEG2'' \<or> oi = ''OIL3'' then 1 else 0)"

text \<open>The variables both modes declare, and an assignment cut down to them.\<close>

fun continuous_var :: "var \<Rightarrow> bool" where
  "continuous_var (IsUsed oi t) = False"
| "continuous_var v = True"

definition restrict_continuous :: "(var \<Rightarrow> real) \<Rightarrow> var \<Rightarrow> real" where
  "restrict_continuous a v = (if continuous_var v then a v else 0)"

text \<open>The variables an expression mentions.\<close>

fun expr_vars :: "expr \<Rightarrow> var set" where
  "expr_vars (Const c) = {}"
| "expr_vars (V v) = {v}"
| "expr_vars (Add e1 e2) = expr_vars e1 \<union> expr_vars e2"
| "expr_vars (Sub e1 e2) = expr_vars e1 \<union> expr_vars e2"
| "expr_vars (Mul e1 e2) = expr_vars e1 \<union> expr_vars e2"

definition continuous_expr :: "expr \<Rightarrow> bool" where
  "continuous_expr e \<longleftrightarrow> (\<forall>v\<in>expr_vars e. continuous_var v)"

definition continuous_result :: "rule_result \<Rightarrow> bool" where
  "continuous_result rr \<longleftrightarrow>
     (case rr of PyBool b \<Rightarrow> True | Relational l r rhs \<Rightarrow> continuous_expr l \<and> continuous_expr rhs)"

text \<open>An optimal assignment of a maximisation model.\<close>

definition optimal :: "model \<Rightarrow> (var \<Rightarrow> real) \<Rightarrow> bool" where
  "optimal m a \<longleftrightarrow>
     feasible m a \<and> (\<forall>b. feasible m b \<longrightarrow> objective_value m b \<le> objective_value m a)"

text \<open>A one-month scenario in which the product sells below every oil price: the price
  table cut to January, the sales price lowered to 100.\<close>

definition january_prices :: prices_df where
  "january_prices = load_market_prices\<lparr>p_index := [1]\<rparr>"

definition slump_parameters :: params where
  "slump_parameters = get_parameters(''product_sales_price'' \<mapsto> 100)"

definition slump_lp :: model where
  "slump_lp = projr (build False load_oils_data january_prices slump_parameters)"

definition slump_mip :: model where
  "slump_mip = projr (build True load_oils_data january_prices slump_parameters)"

text \<open>The reference catalog without its vegetable oils.\<close>

definition nonveg_only :: oils_df where
  "nonveg_only = filter (\<lambda>r. oil_type r = ''NonVeg'') load_oils_data"

text \<open>The reference catalog without VEG1.\<close>

definition without_veg1 :: oils_df where
  "without_veg1 = filter (\<lambda>r. oil_id r \<noteq> ''VEG1'') load_oils_data"

text \<open>A stand-in for the solver that answers with the idle plan, and the object of the
  first scenario after \<^verbatim>\<open>build\<close>.\<close>

definition idle_solver :: "string solver" where
  "idle_solver m = Inr (''optimal'', \<lambda>v. Some (idle v))"

definition lp_wrapper :: FoodManufactureModel where
  "lp_wrapper = snd (build_method False (init load_oils_data load_market_prices get_parameters))"

text \<open>The parameters a build reads, and data on which every lookup and every rule
  succeeds: unique labels, at least one period, periods that continue the first one without
  a gap, an oil of each category, a price column for every oil, every parameter of the
  mode, and in discrete mode the three oils the implication rules name.\<close>

definition required_keys :: "bool \<Rightarrow> string list" where
  "required_keys use_integer_logic =
     [''storage_capacity_per_oil'', ''initial_stock'', ''target_final_stock'',
      ''max_veg_refine_per_month'', ''max_nonveg_refine_per_month'', ''min_hardness'',
      ''max_hardness'', ''product_sales_price'', ''storage_cost_per_ton'']
     @ (if use_integer_logic then [''min_usage_if_used'', ''max_ingredients_per_month''] else [])"

definition well_formed :: "bool \<Rightarrow> oils_df \<Rightarrow> prices_df \<Rightarrow> params \<Rightarrow> bool" where
  "well_formed use_integer_logic oils prices ps \<longleftrightarrow>
     unique_labels oils prices
   \<and> p_index prices \<noteq> []
   \<and> list_all (\<lambda>t. t = hd (p_index prices) \<or> t - 1 \<in> set (p_index prices)) (p_index prices)
   \<and> list_ex (\<lambda>r. oil_type r = ''Veg'') oils \<and> list_ex (\<lambda>r. oil_type r = ''NonVeg'') oils
   \<and> list_all (\<lambda>r. oil_id r \<in> set (p_columns prices)) oils
   \<and> list_all (\<lambda>k. ps k \<noteq> None) (required_keys use_integer_logic)
   \<and> (use_integer_logic \<longrightarrow>
        ''VEG1'' \<in> oil_id ` set oils \<and> ''VEG2'' \<in> oil_id ` set oils \<and> ''OIL3'' \<in> oil_id ` set oils)"

text \<open>Two runs of which the second can differ from a successful first one only by
  raising the exception \<open>e\<close>.\<close>

definition fails_only_with :: "'e \<Rightarrow> 'e + 'a \<Rightarrow> 'e + 'a \<Rightarrow> bool" where
  "fails_only_with e x x' \<longleftrightarrow> (\<forall>v. x = Inr v \<longrightarrow> x' = Inr v \<or> x' = Inl e)"

text \<open>The reference scenario with the non-vegetable refining cap raised to 300 tons, and
  a plan that refines 300 tons of OIL3 every month, buying what it uses.\<close>

definition wide_parameters :: params where
  "wide_parameters = get_parameters(''max_nonveg_refine_per_month'' \<mapsto> 300)"

definition wide_lp :: model where
  "wide_lp = projr (build False load_oils_data load_market_prices wide_parameters)"

definition wide_mip :: model where
  "wide_mip = projr (build True load_oils_data load_market_prices wide_parameters)"

fun heavy :: "var \<Rightarrow> real" where
  "heavy (Buy oi t) = (if oi = ''OIL3'' then 300 else 0)"
| "heavy (Use oi t) = (if oi = ''OIL3'' then 300 else 0)"
| "heavy (Stock oi t) = 500"
| "heavy (Produce t) = 300"
| "heavy (IsUsed oi t) = (if oi = ''OIL3'' then 1 else 0)"

section \<open>Properties\<close>

subsection \<open>Loops, sums and rows\<close>

lemma traverse_Inr_D:
  "traverse f xs = Inr ys \<Longrightarrow> list_all2 (\<lambda>x y. f x = Inr y) xs ys"
  by (induction xs arbitrary: ys) (auto split: sum.splits)

lemma traverse_Inr_I:
  "list_all2 (\<lambda>x y. f x = Inr y) xs ys \<Longrightarrow> traverse f xs = Inr ys"
  by (induction rule: list_all2_induct) simp_all

lemma traverse_Inr_iff:
  "traverse f xs = Inr ys \<longleftrightarrow> list_all2 (\<lambda>x y. f x = Inr y) xs ys"
  using traverse_Inr_D traverse_Inr_I by blast

lemma traverse_member:
  assumes "traverse f xs = Inr ys" and "x \<in> set xs"
  shows "\<exists>y \<in> set ys. f x = Inr y"
proof -
  from assms(1) have "list_all2 (\<lambda>x y. f x = Inr y) xs ys" by (simp add: traverse_Inr_iff)
  then show ?thesis using assms(2)
    by (induction rule: list_all2_induct) auto
qed

lemma traverse_result:
  assumes "traverse f xs = Inr ys" and "y \<in> set ys"
  shows "\<exists>x \<in> set xs. f x = Inr y"
proof -
  from assms(1) have "list_all2 (\<lambda>x y. f x = Inr y) xs ys" by (simp add: traverse_Inr_iff)
  then show ?thesis using assms(2)
    by (induction rule: list_all2_induct) auto
qed

lemma traverse_map:
  assumes "traverse f xs = Inr ys"
  shows "ys = map (\<lambda>x. projr (f x)) xs"
proof -
  from assms have "list_all2 (\<lambda>x y. f x = Inr y) xs ys" by (simp add: traverse_Inr_iff)
  then show ?thesis
    by (induction rule: list_all2_induct) auto
qed

lemma traverse_Inl_iff:
  "(\<exists>e. traverse f xs = Inl e) \<longleftrightarrow> (\<exists>x \<in> set xs. \<exists>e. f x = Inl e)"
  by (induction xs) (auto split: sum.splits)

lemma eval_py_add: "eval a (py_add e1 e2) = eval a e1 + eval a e2"
  by (cases "(e1, e2)" rule: py_add.cases) simp_all

lemma eval_py_sub: "eval a (py_sub e1 e2) = eval a e1 - eval a e2"
  by (cases "(e1, e2)" rule: py_sub.cases) simp_all

lemma eval_py_mul: "eval a (py_mul e1 e2) = eval a e1 * eval a e2"
  by (cases "(e1, e2)" rule: py_mul.cases) simp_all

lemma eval_foldl_py_add: "eval a (foldl py_add e es) = eval a e + sum_list (map (eval a) es)"
  by (induction es arbitrary: e) (simp_all add: eval_py_add)

lemma eval_py_sum: "eval a (py_sum es) = sum_list (map (eval a) es)"
  by (simp add: py_sum_def eval_foldl_py_add)

subsection \<open>What a successful build has done\<close>

lemma andThen_Inr: "andThen x f = Inr y \<longleftrightarrow> (\<exists>v. x = Inr v \<and> f v = Inr y)"
  by (cases x) (simp_all add: andThen_def)

lemma param_Inr: "param ps k = Inr c \<longleftrightarrow> ps k = Some c"
  by (simp add: param_def split: option.splits)

lemma at_OT_Inr: "at_OT Os T X oi t = Inr e \<longleftrightarrow> oi \<in> set Os \<and> t \<in> set T \<and> e = V (X oi t)"
  by (auto simp: at_OT_def)

lemma at_T_Inr: "at_T T t = Inr e \<longleftrightarrow> t \<in> set T \<and> e = V (Produce t)"
  by (auto simp: at_T_def)

lemma set_first_Inr: "set_first T = Inr t \<longleftrightarrow> T \<noteq> [] \<and> t = hd T"
  by (cases T) (auto simp: set_first_def)

lemma set_last_Inr: "set_last T = Inr t \<longleftrightarrow> T \<noteq> [] \<and> t = last T"
  by (auto simp: set_last_def)

lemma Constraint_member:
  assumes "Constraint name tag index rule = Inr rows" and "i \<in> set index"
  shows "\<exists>l r rhs. rule i = Inr (Relational l r rhs) \<and>
           \<lparr>r_name = name, r_index = tag i, r_lhs = l, r_rel = r, r_rhs = rhs\<rparr> \<in> set rows"
proof -
  from traverse_member [OF assms [unfolded Constraint_def]]
  obtain y where "y \<in> set rows"
    and "(case rule i of Inl e \<Rightarrow> Inl e | Inr (PyBool b) \<Rightarrow> Inl (ValueError name)
          | Inr (Relational l r rhs) \<Rightarrow>
              Inr \<lparr>r_name = name, r_index = tag i, r_lhs = l, r_rel = r, r_rhs = rhs\<rparr>) = Inr y"
    by blast
  then show ?thesis
    by (auto split: sum.splits rule_result.splits)
qed

lemma Constraint_row:
  assumes "Constraint name tag index rule = Inr rows" and "y \<in> set rows"
  shows "\<exists>i \<in> set index. \<exists>l r rhs. rule i = Inr (Relational l r rhs) \<and>
           y = \<lparr>r_name = name, r_index = tag i, r_lhs = l, r_rel = r, r_rhs = rhs\<rparr>"
proof -
  from traverse_result [OF assms [unfolded Constraint_def]]
  obtain i where "i \<in> set index"
    and "(case rule i of Inl e \<Rightarrow> Inl e | Inr (PyBool b) \<Rightarrow> Inl (ValueError name)
          | Inr (Relational l r rhs) \<Rightarrow>
              Inr \<lparr>r_name = name, r_index = tag i, r_lhs = l, r_rel = r, r_rhs = rhs\<rparr>) = Inr y"
    by blast
  then show ?thesis
    by (auto split: sum.splits rule_result.splits)
qed

lemma build_Inr:
  assumes "build flag oils prices ps = Inr m"
  shows "\<exists>cap rows1 rows2 obj.
           ps ''storage_capacity_per_oil'' = Some cap \<and>
           part1 ps oils (map oil_id oils) (p_index prices) = Inr rows1 \<and>
           (if flag then part2 ps (map oil_id oils) (p_index prices) else Inr []) = Inr rows2 \<and>
           objective_rule ps prices (map oil_id oils) (p_index prices) = Inr obj \<and>
           m = \<lparr>m_T = p_index prices, m_O = map oil_id oils,
                m_vars = declare_vars flag (map oil_id oils) (p_index prices) cap,
                m_rows = rows1 @ rows2, m_objective = obj, m_sense = maximize,
                m_value = Map.empty\<rparr>"
  using assms unfolding build_def Let_def andThen_Inr param_Inr by (elim exE conjE) (intro exI conjI, assumption+, simp)

lemma part1_Inr:
  assumes "part1 ps oils Os T = Inr rows1"
  shows "\<exists>Balance FinalStock VegCapacity NonVegCapacity ProductionDef HardnessMin HardnessMax.
     Constraint ''Balance'' (\<lambda>(oi, t). OT oi t) (List.product Os T) (balance_rule ps Os T) = Inr Balance \<and>
     Constraint ''FinalStock'' Oi Os (final_stock_rule ps Os T) = Inr FinalStock \<and>
     Constraint ''VegCapacity'' Ti T
        (\<lambda>t. andThen (param ps ''max_veg_refine_per_month'') (capacity_rule oils Os T t ''Veg''))
        = Inr VegCapacity \<and>
     Constraint ''NonVegCapacity'' Ti T
        (\<lambda>t. andThen (param ps ''max_nonveg_refine_per_month'') (capacity_rule oils Os T t ''NonVeg''))
        = Inr NonVegCapacity \<and>
     Constraint ''ProductionDef'' Ti T (production_def Os T) = Inr ProductionDef \<and>
     Constraint ''HardnessMin'' Ti T (hardness_min_rule ps oils Os T) = Inr HardnessMin \<and>
     Constraint ''HardnessMax'' Ti T (hardness_max_rule ps oils Os T) = Inr HardnessMax \<and>
     rows1 = Balance @ FinalStock @ VegCapacity @ NonVegCapacity @ ProductionDef
          @ HardnessMin @ HardnessMax"
  using assms unfolding part1_def andThen_Inr by (elim exE conjE) (intro exI conjI, assumption+, simp)

lemma part2_Inr:
  assumes "part2 ps Os T = Inr rows2"
  shows "\<exists>LinkVars MinThreshold MaxIngredients LogicVeg1 LogicVeg2.
     Constraint ''LinkVars'' (\<lambda>(oi, t). OT oi t) (List.product Os T) (link_rule Os T) = Inr LinkVars \<and>
     Constraint ''MinThreshold'' (\<lambda>(oi, t). OT oi t) (List.product Os T) (min_usage_rule ps Os T)
        = Inr MinThreshold \<and>
     Constraint ''MaxIngredients'' Ti T (max_ingredients_rule ps Os T) = Inr MaxIngredients \<and>
     Constraint ''LogicVeg1'' Ti T (logic_veg1_rule Os T) = Inr LogicVeg1 \<and>
     Constraint ''LogicVeg2'' Ti T (logic_veg2_rule Os T) = Inr LogicVeg2 \<and>
     rows2 = LinkVars @ MinThreshold @ MaxIngredients @ LogicVeg1 @ LogicVeg2"
  using assms unfolding part2_def andThen_Inr by (elim exE conjE) (intro exI conjI, assumption+, simp)

lemma balance_rule_Inr:
  assumes "balance_rule ps Os T (oi, t) = Inr rr"
  shows "\<exists>prev. (if t = hd T then \<exists>c. ps ''initial_stock'' = Some c \<and> prev = Const c
                  else prev = V (Stock oi (t - 1)) \<and> t - 1 \<in> set T)
           \<and> rr = Relational (V (Stock oi t)) Equal (Sub (Add prev (V (Buy oi t))) (V (Use oi t)))"
  using assms unfolding balance_rule_def
  by (auto simp: andThen_Inr param_Inr at_OT_Inr set_first_Inr split: if_splits)

lemma final_stock_rule_Inr:
  assumes "final_stock_rule ps Os T oi = Inr rr"
  shows "\<exists>c. ps ''target_final_stock'' = Some c \<and> T \<noteq> [] \<and>
           rr = Relational (V (Stock oi (last T))) Equal (Const c)"
  using assms unfolding final_stock_rule_def
  by (auto simp: andThen_Inr param_Inr at_OT_Inr set_last_Inr)

lemma feasible_row: "feasible m a \<Longrightarrow> r \<in> set (m_rows m) \<Longrightarrow> satisfies a r"
  by (simp add: feasible_def list_all_iff)

lemma feasible_var: "feasible m a \<Longrightarrow> d \<in> set (m_vars m) \<Longrightarrow> in_domain d (a (v_var d))"
  by (simp add: feasible_def list_all_iff)

lemma build_fields:
  assumes "build flag oils prices ps = Inr m"
  shows "m_O m = map oil_id oils" and "m_T m = p_index prices" and "m_sense m = maximize"
    and "objective_rule ps prices (m_O m) (m_T m) = Inr (m_objective m)"
    and "\<exists>cap. ps ''storage_capacity_per_oil'' = Some cap
           \<and> m_vars m = declare_vars flag (m_O m) (m_T m) cap"
    and "\<exists>rows1 rows2. part1 ps oils (m_O m) (m_T m) = Inr rows1
           \<and> (if flag then part2 ps (m_O m) (m_T m) else Inr []) = Inr rows2
           \<and> m_rows m = rows1 @ rows2"
proof -
  from build_Inr [OF assms] obtain cap rows1 rows2 obj where
    "ps ''storage_capacity_per_oil'' = Some cap"
    "part1 ps oils (map oil_id oils) (p_index prices) = Inr rows1"
    "(if flag then part2 ps (map oil_id oils) (p_index prices) else Inr []) = Inr rows2"
    "objective_rule ps prices (map oil_id oils) (p_index prices) = Inr obj"
    and m: "m = \<lparr>m_T = p_index prices, m_O = map oil_id oils,
                m_vars = declare_vars flag (map oil_id oils) (p_index prices) cap,
                m_rows = rows1 @ rows2, m_objective = obj, m_sense = maximize,
                m_value = Map.empty\<rparr>"
    by blast
  then show "m_O m = map oil_id oils" "m_T m = p_index prices" "m_sense m = maximize"
    "objective_rule ps prices (m_O m) (m_T m) = Inr (m_objective m)"
    "\<exists>cap. ps ''storage_capacity_per_oil'' = Some cap
           \<and> m_vars m = declare_vars flag (m_O m) (m_T m) cap"
    "\<exists>rows1 rows2. part1 ps oils (m_O m) (m_T m) = Inr rows1
           \<and> (if flag then part2 ps (m_O m) (m_T m) else Inr []) = Inr rows2
           \<and> m_rows m = rows1 @ rows2"
    by (simp_all split: if_splits)
qed

lemma traverse_sum:
  assumes "traverse f xs = Inr ys"
    and "\<And>x y. x \<in> set xs \<Longrightarrow> f x = Inr y \<Longrightarrow> eval a y = g x"
  shows "eval a (py_sum ys) = sum_list (map g xs)"
proof -
  from assms(1) have "list_all2 (\<lambda>x y. f x = Inr y) xs ys" by (rule traverse_Inr_D)
  then have "sum_list (map (eval a) ys) = sum_list (map g xs)" using assms(2)
    by (induction rule: list_all2_induct) simp_all
  then show ?thesis by (simp add: eval_py_sum)
qed

lemma traverse_nonempty:
  assumes "traverse f xs = Inr ys" and "xs \<noteq> []"
  shows "\<exists>y. f (hd xs) = Inr y"
  using traverse_member [OF assms(1), of "hd xs"] assms(2) by auto

lemma revenue_Inr:
  assumes "revenue ps T = Inr e"
  shows "\<exists>sale. (T \<noteq> [] \<longrightarrow> ps ''product_sales_price'' = Some sale)
           \<and> (\<forall>a. eval a e = (\<Sum>t\<leftarrow>T. a (Produce t) * sale))"
proof -
  let ?f = "\<lambda>t. andThen (at_T T t) (\<lambda>produce.
                 andThen (param ps ''product_sales_price'') (\<lambda>c. Inr (py_mul produce (Const c))))"
  from assms obtain terms where tr: "traverse ?f T = Inr terms" and e: "e = py_sum terms"
    by (auto simp: revenue_def andThen_Inr)
  show ?thesis
  proof (cases "ps ''product_sales_price''")
    case None
    have "T = []"
    proof (rule ccontr)
      assume "T \<noteq> []"
      from traverse_nonempty [OF tr this] None show False
        by (auto simp: andThen_Inr param_Inr)
    qed
    with tr e show ?thesis by (auto simp: py_sum_def)
  next
    case (Some sale)
    have "eval a e = (\<Sum>t\<leftarrow>T. a (Produce t) * sale)" for a
      unfolding e
      by (rule traverse_sum [OF tr]) (auto simp: andThen_Inr param_Inr at_T_Inr Some eval_py_mul)
    with Some show ?thesis by blast
  qed
qed

lemma storage_cost_Inr:
  assumes "storage_cost ps Os T = Inr e"
  shows "\<exists>cost. (List.product Os T \<noteq> [] \<longrightarrow> ps ''storage_cost_per_ton'' = Some cost)
           \<and> (\<forall>a. eval a e = (\<Sum>(oi, t)\<leftarrow>List.product Os T. a (Stock oi t) * cost))"
proof -
  let ?f = "\<lambda>(oi, t). andThen (at_OT Os T Stock oi t) (\<lambda>stock.
                 andThen (param ps ''storage_cost_per_ton'') (\<lambda>c. Inr (py_mul stock (Const c))))"
  from assms obtain terms where tr: "traverse ?f (List.product Os T) = Inr terms"
    and e: "e = py_sum terms"
    by (auto simp: storage_cost_def andThen_Inr)
  show ?thesis
  proof (cases "ps ''storage_cost_per_ton''")
    case None
    have "List.product Os T = []"
    proof (rule ccontr)
      assume "List.product Os T \<noteq> []"
      from traverse_nonempty [OF tr this] None show False
        by (auto simp: andThen_Inr param_Inr split: prod.splits)
    qed
    with tr e show ?thesis by (auto simp: py_sum_def)
  next
    case (Some cost)
    have "eval a e = (\<Sum>(oi, t)\<leftarrow>List.product Os T. a (Stock oi t) * cost)" for a
      unfolding e
      by (rule traverse_sum [OF tr])
        (auto simp: andThen_Inr param_Inr at_OT_Inr Some eval_py_mul)
    with Some show ?thesis by blast
  qed
qed

lemma purchase_cost_Inr:
  assumes "purchase_cost prices Os T = Inr e"
  shows "eval a e = (\<Sum>(oi, t)\<leftarrow>List.product Os T. a (Buy oi t) * p_cell prices t oi)"
proof -
  let ?f = "\<lambda>(oi, t). andThen (at_OT Os T Buy oi t) (\<lambda>buy.
                 andThen (prices_loc prices t oi) (\<lambda>c. Inr (py_mul buy (Const c))))"
  from assms obtain terms where tr: "traverse ?f (List.product Os T) = Inr terms"
    and e: "e = py_sum terms"
    by (auto simp: purchase_cost_def andThen_Inr)
  show ?thesis
    unfolding e
    by (rule traverse_sum [OF tr])
      (auto simp: andThen_Inr at_OT_Inr prices_loc_def eval_py_mul split: if_splits)
qed

lemma purchase_cost_columns:
  assumes "purchase_cost prices Os T = Inr e" and "oi \<in> set Os" and "T \<noteq> []"
  shows "oi \<in> set (p_columns prices)"
proof -
  let ?f = "\<lambda>(oi, t). andThen (at_OT Os T Buy oi t) (\<lambda>buy.
                 andThen (prices_loc prices t oi) (\<lambda>c. Inr (py_mul buy (Const c))))"
  from assms(1) obtain terms where tr: "traverse ?f (List.product Os T) = Inr terms"
    by (auto simp: purchase_cost_def andThen_Inr)
  from assms(2,3) have "(oi, hd T) \<in> set (List.product Os T)" by simp
  from traverse_member [OF tr this] show ?thesis
    by (auto simp: andThen_Inr prices_loc_def split: if_splits)
qed

lemma py_rel_V: "py_rel r (V v) e = Relational (V v) r e"
  by simp

lemma py_rel_Mul: "py_rel r e (Mul e1 e2) = Relational e r (Mul e1 e2)"
  by (cases e) simp_all

lemma declare_vars_Use:
  assumes "oi \<in> set Os" and "t \<in> set T"
  shows "\<lparr>v_var = Use oi t, v_domain = NonNegativeReals, v_bounds = None\<rparr>
           \<in> set (declare_vars flag Os T cap)"
proof -
  from assms have "(oi, t) \<in> set (List.product Os T)" by simp
  then have "\<lparr>v_var = Use oi t, v_domain = NonNegativeReals, v_bounds = None\<rparr>
      \<in> set (map (\<lambda>(oi, t). \<lparr>v_var = Use oi t, v_domain = NonNegativeReals, v_bounds = None\<rparr>)
                (List.product Os T))"
    by (force simp: image_iff)
  then show ?thesis by (simp add: declare_vars_def)
qed

lemma feasible_Use_nonneg:
  assumes "build flag oils prices ps = Inr m" and "feasible m a"
    and "oi \<in> set (m_O m)" and "t \<in> set (m_T m)"
  shows "0 \<le> a (Use oi t)"
proof -
  from build_fields(5) [OF assms(1)] obtain cap
    where "m_vars m = declare_vars flag (m_O m) (m_T m) cap" by blast
  with declare_vars_Use [OF assms(3,4)]
  have "\<lparr>v_var = Use oi t, v_domain = NonNegativeReals, v_bounds = None\<rparr> \<in> set (m_vars m)"
    by simp
  from feasible_var [OF assms(2) this] show ?thesis by (simp add: in_domain_def)
qed

lemma production_def_Inr:
  assumes "production_def Os T t = Inr rr"
  shows "\<exists>e. rr = Relational (V (Produce t)) Equal e \<and> (\<forall>a. eval a e = (\<Sum>oi\<leftarrow>Os. a (Use oi t)))"
proof -
  from assms obtain uses where tr: "traverse (\<lambda>oi. at_OT Os T Use oi t) Os = Inr uses"
    and rr: "rr = py_rel Equal (V (Produce t)) (py_sum uses)"
    by (auto simp: production_def_def andThen_Inr at_T_Inr)
  have "eval a (py_sum uses) = (\<Sum>oi\<leftarrow>Os. a (Use oi t))" for a
    by (rule traverse_sum [OF tr]) (auto simp: at_OT_Inr)
  with rr show ?thesis by (simp add: py_rel_V)
qed

lemma hardness_lookup:
  assumes "distinct (map oil_id oils)" and "r \<in> set oils"
  shows "oils_loc_hardness oils (oil_id r) = Inr (hardness r)"
proof -
  have "distinct (map fst (map (\<lambda>r. (oil_id r, hardness r)) oils))"
    using assms(1) by (simp add: comp_def)
  moreover have "(oil_id r, hardness r) \<in> set (map (\<lambda>r. (oil_id r, hardness r)) oils)"
    using assms(2) by auto
  ultimately have "map_of (map (\<lambda>r. (oil_id r, hardness r)) oils) (oil_id r) = Some (hardness r)"
    by (rule map_of_is_SomeI)
  then show ?thesis by (simp add: oils_loc_hardness_def)
qed

lemma total_hardness_Inr:
  assumes "total_hardness oils (map oil_id oils) T t = Inr e" and "distinct (map oil_id oils)"
  shows "eval a e = (\<Sum>r\<leftarrow>oils. hardness r * a (Use (oil_id r) t))"
proof -
  let ?f = "\<lambda>oi. andThen (oils_loc_hardness oils oi) (\<lambda>h.
                  andThen (at_OT (map oil_id oils) T Use oi t) (\<lambda>use. Inr (py_mul (Const h) use)))"
  from assms(1) obtain terms where "traverse ?f (map oil_id oils) = Inr terms"
    and e: "e = py_sum terms"
    by (auto simp: total_hardness_def andThen_Inr)
  then have "list_all2 (\<lambda>x y. ?f x = Inr y) (map oil_id oils) terms"
    by (simp add: traverse_Inr_D)
  then have "list_all2 (\<lambda>r y. ?f (oil_id r) = Inr y) oils terms"
    by (simp add: list_all2_map1)
  then have tr: "traverse (\<lambda>r. ?f (oil_id r)) oils = Inr terms"
    by (rule traverse_Inr_I)
  show ?thesis
    unfolding e
    by (rule traverse_sum [OF tr])
      (auto simp: andThen_Inr at_OT_Inr hardness_lookup [OF assms(2)] eval_py_mul)
qed

lemma hardness_min_rule_Inr:
  assumes "hardness_min_rule ps oils Os T t = Inr rr"
  shows "\<exists>h total. ps ''min_hardness'' = Some h \<and> total_hardness oils Os T t = Inr total
           \<and> rr = Relational total GreaterEq (Mul (Const h) (V (Produce t)))"
  using assms unfolding hardness_min_rule_def
  by (auto simp: andThen_Inr param_Inr at_T_Inr py_rel_Mul)

lemma hardness_max_rule_Inr:
  assumes "hardness_max_rule ps oils Os T t = Inr rr"
  shows "\<exists>h total. ps ''max_hardness'' = Some h \<and> total_hardness oils Os T t = Inr total
           \<and> rr = Relational total LessEq (Mul (Const h) (V (Produce t)))"
  using assms unfolding hardness_max_rule_def
  by (auto simp: andThen_Inr param_Inr at_T_Inr py_rel_Mul)

lemma part1_rows:
  assumes "build flag oils prices ps = Inr m"
  obtains Balance FinalStock VegCapacity NonVegCapacity ProductionDef HardnessMin HardnessMax where
    "Constraint ''Balance'' (\<lambda>(oi, t). OT oi t) (List.product (m_O m) (m_T m))
       (balance_rule ps (m_O m) (m_T m)) = Inr Balance"
    "Constraint ''FinalStock'' Oi (m_O m) (final_stock_rule ps (m_O m) (m_T m)) = Inr FinalStock"
    "Constraint ''VegCapacity'' Ti (m_T m)
        (\<lambda>t. andThen (param ps ''max_veg_refine_per_month'')
                (capacity_rule oils (m_O m) (m_T m) t ''Veg'')) = Inr VegCapacity"
    "Constraint ''NonVegCapacity'' Ti (m_T m)
        (\<lambda>t. andThen (param ps ''max_nonveg_refine_per_month'')
                (capacity_rule oils (m_O m) (m_T m) t ''NonVeg'')) = Inr NonVegCapacity"
    "Constraint ''ProductionDef'' Ti (m_T m) (production_def (m_O m) (m_T m)) = Inr ProductionDef"
    "Constraint ''HardnessMin'' Ti (m_T m) (hardness_min_rule ps oils (m_O m) (m_T m))
       = Inr HardnessMin"
    "Constraint ''HardnessMax'' Ti (m_T m) (hardness_max_rule ps oils (m_O m) (m_T m))
       = Inr HardnessMax"
    "set Balance \<subseteq> set (m_rows m)" "set FinalStock \<subseteq> set (m_rows m)"
    "set VegCapacity \<subseteq> set (m_rows m)" "set NonVegCapacity \<subseteq> set (m_rows m)"
    "set ProductionDef \<subseteq> set (m_rows m)" "set HardnessMin \<subseteq> set (m_rows m)"
    "set HardnessMax \<subseteq> set (m_rows m)"
proof -
  from build_fields(6) [OF assms] obtain rows1 rows2
    where p1: "part1 ps oils (m_O m) (m_T m) = Inr rows1" and rows: "m_rows m = rows1 @ rows2"
    by blast
  from part1_Inr [OF p1] obtain B F VC NC PD HMin HMax where
    c: "Constraint ''Balance'' (\<lambda>(oi, t). OT oi t) (List.product (m_O m) (m_T m))
       (balance_rule ps (m_O m) (m_T m)) = Inr B"
    "Constraint ''FinalStock'' Oi (m_O m) (final_stock_rule ps (m_O m) (m_T m)) = Inr F"
    "Constraint ''VegCapacity'' Ti (m_T m)
        (\<lambda>t. andThen (param ps ''max_veg_refine_per_month'')
                (capacity_rule oils (m_O m) (m_T m) t ''Veg'')) = Inr VC"
    "Constraint ''NonVegCapacity'' Ti (m_T m)
        (\<lambda>t. andThen (param ps ''max_nonveg_refine_per_month'')
                (capacity_rule oils (m_O m) (m_T m) t ''NonVeg'')) = Inr NC"
    "Constraint ''ProductionDef'' Ti (m_T m) (production_def (m_O m) (m_T m)) = Inr PD"
    "Constraint ''HardnessMin'' Ti (m_T m) (hardness_min_rule ps oils (m_O m) (m_T m)) = Inr HMin"
    "Constraint ''HardnessMax'' Ti (m_T m) (hardness_max_rule ps oils (m_O m) (m_T m)) = Inr HMax"
    and r1: "rows1 = B @ F @ VC @ NC @ PD @ HMin @ HMax"
    by blast
  have "set B \<subseteq> set (m_rows m)" "set F \<subseteq> set (m_rows m)" "set VC \<subseteq> set (m_rows m)"
    "set NC \<subseteq> set (m_rows m)" "set PD \<subseteq> set (m_rows m)" "set HMin \<subseteq> set (m_rows m)"
    "set HMax \<subseteq> set (m_rows m)"
    by (auto simp: rows r1)
  with c show thesis by (rule that)
qed

lemma production_row:
  assumes "build flag oils prices ps = Inr m" and "t \<in> set (m_T m)" and "feasible m a"
  shows "a (Produce t) = (\<Sum>oi\<leftarrow>m_O m. a (Use oi t))"
proof -
  from assms(1) obtain PD where
    c: "Constraint ''ProductionDef'' Ti (m_T m) (production_def (m_O m) (m_T m)) = Inr PD"
    and sub: "set PD \<subseteq> set (m_rows m)"
    by (rule part1_rows)
  from Constraint_member [OF c assms(2)] obtain l r rhs where
    rule: "production_def (m_O m) (m_T m) t = Inr (Relational l r rhs)"
    and mem: "\<lparr>r_name = ''ProductionDef'', r_index = Ti t, r_lhs = l, r_rel = r, r_rhs = rhs\<rparr> \<in> set PD"
    by blast
  from production_def_Inr [OF rule]
  have "l = V (Produce t)" "r = Equal" "\<And>a. eval a rhs = (\<Sum>oi\<leftarrow>m_O m. a (Use oi t))"
    by auto
  with feasible_row [OF assms(3)] mem sub show ?thesis
    by (fastforce simp: satisfies_def)
qed

lemma sum_list_nonneg_zero:
  fixes f :: "'a \<Rightarrow> real"
  assumes "(\<Sum>x\<leftarrow>xs. f x) = 0" and "\<And>x. x \<in> set xs \<Longrightarrow> 0 \<le> f x" and "x \<in> set xs"
  shows "f x = 0"
  using assms
proof (induction xs)
  case Nil
  then show ?case by simp
next
  case (Cons y ys)
  have "0 \<le> f y" using Cons.prems(2) by simp
  moreover have "0 \<le> (\<Sum>x\<leftarrow>ys. f x)"
    by (rule sum_list_nonneg) (use Cons.prems(2) in auto)
  ultimately have "0 \<le> f y" "0 \<le> (\<Sum>x\<leftarrow>ys. f x)" by simp_all
  with Cons.prems(1) have "f y = 0" "(\<Sum>x\<leftarrow>ys. f x) = 0" by simp_all
  with Cons show ?case by auto
qed

lemma sum_list_all_zero:
  fixes f :: "'a \<Rightarrow> real"
  assumes "\<And>x. x \<in> set xs \<Longrightarrow> f x = 0"
  shows "(\<Sum>x\<leftarrow>xs. f x) = 0"
  using assms by (induction xs) simp_all

lemma py_rel_Relational:
  "py_rel r e1 e2 = Relational l r' rhs \<Longrightarrow> l = e1 \<and> r' = r \<and> rhs = e2"
  by (cases "(r, e1, e2)" rule: py_rel.cases) simp_all

lemma link_rule_Inr:
  assumes "link_rule Os T (oi, t) = Inr rr"
  shows "rr = Relational (V (Use oi t)) LessEq (Mul (Const big_m) (V (IsUsed oi t)))"
  using assms unfolding link_rule_def
  by (auto simp: andThen_Inr at_OT_Inr)

lemma min_usage_rule_Inr:
  assumes "min_usage_rule ps Os T (oi, t) = Inr rr"
  shows "\<exists>c. ps ''min_usage_if_used'' = Some c
           \<and> rr = Relational (V (Use oi t)) GreaterEq (Mul (Const c) (V (IsUsed oi t)))"
  using assms unfolding min_usage_rule_def
  by (auto simp: andThen_Inr at_OT_Inr param_Inr)

lemma part2_rows:
  assumes "build True oils prices ps = Inr m"
  obtains LinkVars MinThreshold MaxIngredients LogicVeg1 LogicVeg2 where
    "Constraint ''LinkVars'' (\<lambda>(oi, t). OT oi t) (List.product (m_O m) (m_T m))
       (link_rule (m_O m) (m_T m)) = Inr LinkVars"
    "Constraint ''MinThreshold'' (\<lambda>(oi, t). OT oi t) (List.product (m_O m) (m_T m))
       (min_usage_rule ps (m_O m) (m_T m)) = Inr MinThreshold"
    "Constraint ''MaxIngredients'' Ti (m_T m) (max_ingredients_rule ps (m_O m) (m_T m))
       = Inr MaxIngredients"
    "Constraint ''LogicVeg1'' Ti (m_T m) (logic_veg1_rule (m_O m) (m_T m)) = Inr LogicVeg1"
    "Constraint ''LogicVeg2'' Ti (m_T m) (logic_veg2_rule (m_O m) (m_T m)) = Inr LogicVeg2"
    "set LinkVars \<subseteq> set (m_rows m)" "set MinThreshold \<subseteq> set (m_rows m)"
    "set MaxIngredients \<subseteq> set (m_rows m)" "set LogicVeg1 \<subseteq> set (m_rows m)"
    "set LogicVeg2 \<subseteq> set (m_rows m)"
proof -
  from build_fields(6) [OF assms] obtain rows1 rows2
    where p2: "part2 ps (m_O m) (m_T m) = Inr rows2" and rows: "m_rows m = rows1 @ rows2"
    by auto
  from part2_Inr [OF p2] obtain L M X V1 V2 where
    c: "Constraint ''LinkVars'' (\<lambda>(oi, t). OT oi t) (List.product (m_O m) (m_T m))
       (link_rule (m_O m) (m_T m)) = Inr L"
    "Constraint ''MinThreshold'' (\<lambda>(oi, t). OT oi t) (List.product (m_O m) (m_T m))
       (min_usage_rule ps (m_O m) (m_T m)) = Inr M"
    "Constraint ''MaxIngredients'' Ti (m_T m) (max_ingredients_rule ps (m_O m) (m_T m)) = Inr X"
    "Constraint ''LogicVeg1'' Ti (m_T m) (logic_veg1_rule (m_O m) (m_T m)) = Inr V1"
    "Constraint ''LogicVeg2'' Ti (m_T m) (logic_veg2_rule (m_O m) (m_T m)) = Inr V2"
    and r2: "rows2 = L @ M @ X @ V1 @ V2"
    by blast
  have "set L \<subseteq> set (m_rows m)" "set M \<subseteq> set (m_rows m)" "set X \<subseteq> set (m_rows m)"
    "set V1 \<subseteq> set (m_rows m)" "set V2 \<subseteq> set (m_rows m)"
    by (auto simp: rows r2)
  with c show thesis by (rule that)
qed

lemma declare_vars_IsUsed:
  assumes "oi \<in> set Os" and "t \<in> set T"
  shows "\<lparr>v_var = IsUsed oi t, v_domain = Binary, v_bounds = None\<rparr>
           \<in> set (declare_vars True Os T cap)"
proof -
  from assms have "(oi, t) \<in> set (List.product Os T)" by simp
  then have "\<lparr>v_var = IsUsed oi t, v_domain = Binary, v_bounds = None\<rparr>
      \<in> set (map (\<lambda>(oi, t). \<lparr>v_var = IsUsed oi t, v_domain = Binary, v_bounds = None\<rparr>)
                (List.product Os T))"
    by (force simp: image_iff)
  then show ?thesis by (simp add: declare_vars_def)
qed

lemma feasible_IsUsed_binary:
  assumes "build True oils prices ps = Inr m" and "feasible m a"
    and "oi \<in> set (m_O m)" and "t \<in> set (m_T m)"
  shows "a (IsUsed oi t) = 0 \<or> a (IsUsed oi t) = 1"
proof -
  from build_fields(5) [OF assms(1)] obtain cap
    where "m_vars m = declare_vars True (m_O m) (m_T m) cap" by blast
  with declare_vars_IsUsed [OF assms(3,4)]
  have "\<lparr>v_var = IsUsed oi t, v_domain = Binary, v_bounds = None\<rparr> \<in> set (m_vars m)"
    by simp
  from feasible_var [OF assms(2) this] show ?thesis by (simp add: in_domain_def)
qed

lemma capacity_rule_Inr:
  assumes "capacity_rule oils Os T t ty limit = Inr (Relational l r rhs)"
  shows "r = LessEq \<and> rhs = Const limit
    \<and> (\<forall>a. eval a l = (\<Sum>x\<leftarrow>filter (\<lambda>x. oil_type x = ty) oils. a (Use (oil_id x) t)))"
proof -
  let ?rel = "filter (\<lambda>x. oil_type x = ty) oils"
  from assms obtain uses where
    tr0: "traverse (\<lambda>oi. at_OT Os T Use oi t) (map oil_id ?rel) = Inr uses"
    and rr: "py_rel LessEq (py_sum uses) (Const limit) = Relational l r rhs"
    by (auto simp: capacity_rule_def andThen_Inr)
  from tr0 have "list_all2 (\<lambda>x y. at_OT Os T Use (oil_id x) t = Inr y) ?rel uses"
    by (simp add: traverse_Inr_iff list_all2_map1)
  then have tr: "traverse (\<lambda>x. at_OT Os T Use (oil_id x) t) ?rel = Inr uses"
    by (rule traverse_Inr_I)
  have "eval a (py_sum uses) = (\<Sum>x\<leftarrow>?rel. a (Use (oil_id x) t))" for a
    by (rule traverse_sum [OF tr]) (auto simp: at_OT_Inr)
  with py_rel_Relational [OF rr] show ?thesis by simp
qed

lemma member_le_sum_list_real:
  fixes f :: "'a \<Rightarrow> real"
  assumes "x \<in> set xs" and "\<And>y. y \<in> set xs \<Longrightarrow> 0 \<le> f y"
  shows "f x \<le> (\<Sum>y\<leftarrow>xs. f y)"
  using assms
proof (induction xs)
  case Nil
  then show ?case by simp
next
  case (Cons z zs)
  have nn: "0 \<le> (\<Sum>y\<leftarrow>zs. f y)"
    by (rule sum_list_nonneg) (use Cons.prems(2) in auto)
  show ?case
  proof (cases "x = z")
    case True
    with nn show ?thesis by simp
  next
    case False
    with Cons.prems(1) have "x \<in> set zs" by simp
    with Cons.IH Cons.prems(2) have "f x \<le> (\<Sum>y\<leftarrow>zs. f y)" by simp
    moreover have "0 \<le> f z" using Cons.prems(2) by simp
    ultimately show ?thesis by simp
  qed
qed

lemma capacity_respected:
  assumes "build flag oils prices ps = Inr m" and "feasible m a"
    and "t \<in> set (m_T m)" and "x \<in> set oils"
  shows "oil_type x = ''Veg'' \<Longrightarrow> ps ''max_veg_refine_per_month'' = Some cv
           \<Longrightarrow> a (Use (oil_id x) t) \<le> cv"
    and "oil_type x = ''NonVeg'' \<Longrightarrow> ps ''max_nonveg_refine_per_month'' = Some cn
           \<Longrightarrow> a (Use (oil_id x) t) \<le> cn"
proof -
  note f = build_fields [OF assms(1)]
  from assms(1) obtain VC NC where
    cv: "Constraint ''VegCapacity'' Ti (m_T m)
        (\<lambda>t. andThen (param ps ''max_veg_refine_per_month'')
                (capacity_rule oils (m_O m) (m_T m) t ''Veg'')) = Inr VC"
    and cn: "Constraint ''NonVegCapacity'' Ti (m_T m)
        (\<lambda>t. andThen (param ps ''max_nonveg_refine_per_month'')
                (capacity_rule oils (m_O m) (m_T m) t ''NonVeg'')) = Inr NC"
    and sub: "set VC \<subseteq> set (m_rows m)" "set NC \<subseteq> set (m_rows m)"
    by (rule part1_rows)
  have nn: "0 \<le> a (Use (oil_id y) t)" if "y \<in> set oils" for y
    using feasible_Use_nonneg [OF assms(1,2) _ assms(3), of "oil_id y"] that by (simp add: f(1))
  have bound: "a (Use (oil_id x) t) \<le> c"
    if c: "Constraint name Ti (m_T m)
             (\<lambda>t. andThen (param ps k) (capacity_rule oils (m_O m) (m_T m) t ty)) = Inr rows"
      and sub: "set rows \<subseteq> set (m_rows m)" and ty: "oil_type x = ty" and k: "ps k = Some c"
    for name k ty rows c
  proof -
    from Constraint_member [OF c assms(3)] obtain l r rhs where
      rule: "andThen (param ps k) (capacity_rule oils (m_O m) (m_T m) t ty)
               = Inr (Relational l r rhs)"
      and mem: "\<lparr>r_name = name, r_index = Ti t, r_lhs = l, r_rel = r, r_rhs = rhs\<rparr> \<in> set rows"
      by blast
    from rule k have "capacity_rule oils (m_O m) (m_T m) t ty c = Inr (Relational l r rhs)"
      by (simp add: andThen_Inr param_Inr)
    from capacity_rule_Inr [OF this]
    have row: "r = LessEq" "rhs = Const c"
      and ev: "eval a l = (\<Sum>y\<leftarrow>filter (\<lambda>y. oil_type y = ty) oils. a (Use (oil_id y) t))"
      by simp_all
    from feasible_row [OF assms(2)] mem sub
    have "satisfies a \<lparr>r_name = name, r_index = Ti t, r_lhs = l, r_rel = r, r_rhs = rhs\<rparr>"
      by blast
    then have "(\<Sum>y\<leftarrow>filter (\<lambda>y. oil_type y = ty) oils. a (Use (oil_id y) t)) \<le> c"
      by (simp add: satisfies_def row ev)
    moreover have "a (Use (oil_id x) t)
        \<le> (\<Sum>y\<leftarrow>filter (\<lambda>y. oil_type y = ty) oils. a (Use (oil_id y) t))"
      by (rule member_le_sum_list_real) (use assms(4) ty nn in auto)
    ultimately show ?thesis by simp
  qed
  show "oil_type x = ''Veg'' \<Longrightarrow> ps ''max_veg_refine_per_month'' = Some cv
           \<Longrightarrow> a (Use (oil_id x) t) \<le> cv"
    by (rule bound [OF cv sub(1)])
  show "oil_type x = ''NonVeg'' \<Longrightarrow> ps ''max_nonveg_refine_per_month'' = Some cn
           \<Longrightarrow> a (Use (oil_id x) t) \<le> cn"
    by (rule bound [OF cn sub(2)])
qed

lemma eval_cong_vars: "(\<And>v. v \<in> expr_vars e \<Longrightarrow> a v = b v) \<Longrightarrow> eval a e = eval b e"
  by (induction e) simp_all

lemma expr_vars_py_add: "expr_vars (py_add e1 e2) = expr_vars e1 \<union> expr_vars e2"
  by (cases "(e1, e2)" rule: py_add.cases) simp_all

lemma expr_vars_py_sub: "expr_vars (py_sub e1 e2) = expr_vars e1 \<union> expr_vars e2"
  by (cases "(e1, e2)" rule: py_sub.cases) simp_all

lemma expr_vars_py_mul: "expr_vars (py_mul e1 e2) = expr_vars e1 \<union> expr_vars e2"
  by (cases "(e1, e2)" rule: py_mul.cases) simp_all

lemma expr_vars_foldl: "expr_vars (foldl py_add e es) = expr_vars e \<union> (\<Union>x\<in>set es. expr_vars x)"
  by (induction es arbitrary: e) (auto simp: expr_vars_py_add)

lemma expr_vars_py_sum: "expr_vars (py_sum es) = (\<Union>x\<in>set es. expr_vars x)"
  by (simp add: py_sum_def expr_vars_foldl)

lemma continuous_expr_simps:
  "continuous_expr (Const c)"
  "continuous_expr (V v) = continuous_var v"
  "continuous_expr (Add e1 e2) = (continuous_expr e1 \<and> continuous_expr e2)"
  "continuous_expr (Sub e1 e2) = (continuous_expr e1 \<and> continuous_expr e2)"
  "continuous_expr (Mul e1 e2) = (continuous_expr e1 \<and> continuous_expr e2)"
  "continuous_expr (py_add e1 e2) = (continuous_expr e1 \<and> continuous_expr e2)"
  "continuous_expr (py_sub e1 e2) = (continuous_expr e1 \<and> continuous_expr e2)"
  "continuous_expr (py_mul e1 e2) = (continuous_expr e1 \<and> continuous_expr e2)"
  by (auto simp: continuous_expr_def expr_vars_py_add expr_vars_py_sub expr_vars_py_mul)

lemma continuous_py_sum: "continuous_expr (py_sum es) = (\<forall>e\<in>set es. continuous_expr e)"
  by (auto simp: continuous_expr_def expr_vars_py_sum)

lemma traverse_all:
  assumes "traverse f xs = Inr ys" and "\<And>x y. x \<in> set xs \<Longrightarrow> f x = Inr y \<Longrightarrow> P y"
  shows "\<forall>y\<in>set ys. P y"
  using traverse_result [OF assms(1)] assms(2) by blast

lemma eval_restrict: "continuous_expr e \<Longrightarrow> eval (restrict_continuous a) e = eval a e"
  by (rule eval_cong_vars) (simp add: continuous_expr_def restrict_continuous_def)

lemma continuous_result_Relational:
  "continuous_result (Relational l r rhs) = (continuous_expr l \<and> continuous_expr rhs)"
  by (simp add: continuous_result_def)

lemma continuous_py_rel:
  "continuous_expr e1 \<Longrightarrow> continuous_expr e2 \<Longrightarrow> continuous_result (py_rel r e1 e2)"
  by (cases "(r, e1, e2)" rule: py_rel.cases) (simp_all add: continuous_result_def)

lemmas continuous_simps = continuous_expr_simps continuous_result_Relational continuous_py_rel

lemma balance_rule_continuous:
  "balance_rule ps Os T i = Inr rr \<Longrightarrow> continuous_result rr"
  unfolding balance_rule_def
  by (cases i) (auto simp: andThen_Inr at_OT_Inr continuous_simps split: if_splits)

lemma final_stock_rule_continuous:
  "final_stock_rule ps Os T i = Inr rr \<Longrightarrow> continuous_result rr"
  unfolding final_stock_rule_def
  by (auto simp: andThen_Inr at_OT_Inr continuous_simps)

lemma uses_continuous:
  assumes "traverse (\<lambda>oi. at_OT Os T Use oi t) xs = Inr uses"
  shows "continuous_expr (py_sum uses)"
  unfolding continuous_py_sum
  by (rule traverse_all [OF assms]) (auto simp: at_OT_Inr continuous_simps)

lemma capacity_rule_continuous:
  "capacity_rule oils Os T t ty limit = Inr rr \<Longrightarrow> continuous_result rr"
  unfolding capacity_rule_def Let_def
  by (auto simp: andThen_Inr continuous_simps uses_continuous)

lemma production_def_continuous:
  "production_def Os T t = Inr rr \<Longrightarrow> continuous_result rr"
  unfolding production_def_def
  by (auto simp: andThen_Inr at_T_Inr continuous_simps uses_continuous)

lemma total_hardness_continuous:
  assumes "total_hardness oils Os T t = Inr e"
  shows "continuous_expr e"
proof -
  from assms obtain terms where
    tr: "traverse (\<lambda>oi. andThen (oils_loc_hardness oils oi) (\<lambda>h.
                  andThen (at_OT Os T Use oi t) (\<lambda>use. Inr (py_mul (Const h) use)))) Os = Inr terms"
    and e: "e = py_sum terms"
    by (auto simp: total_hardness_def andThen_Inr)
  show ?thesis
    unfolding e continuous_py_sum
    by (rule traverse_all [OF tr]) (auto simp: andThen_Inr at_OT_Inr continuous_simps)
qed

lemma hardness_min_rule_continuous:
  "hardness_min_rule ps oils Os T t = Inr rr \<Longrightarrow> continuous_result rr"
  unfolding hardness_min_rule_def
  by (auto simp: andThen_Inr at_T_Inr continuous_simps total_hardness_continuous)

lemma hardness_max_rule_continuous:
  "hardness_max_rule ps oils Os T t = Inr rr \<Longrightarrow> continuous_result rr"
  unfolding hardness_max_rule_def
  by (auto simp: andThen_Inr at_T_Inr continuous_simps total_hardness_continuous)

lemma Constraint_continuous:
  assumes "Constraint name tag index rule = Inr rows"
    and "\<And>i rr. rule i = Inr rr \<Longrightarrow> continuous_result rr"
    and "y \<in> set rows"
  shows "continuous_expr (r_lhs y) \<and> continuous_expr (r_rhs y)"
proof -
  from Constraint_row [OF assms(1,3)] obtain i l r rhs where
    "rule i = Inr (Relational l r rhs)"
    and y: "y = \<lparr>r_name = name, r_index = tag i, r_lhs = l, r_rel = r, r_rhs = rhs\<rparr>"
    by blast
  from assms(2) [OF this(1)] show ?thesis by (simp add: y continuous_result_def)
qed

lemma part1_continuous:
  assumes "part1 ps oils Os T = Inr rows1" and "y \<in> set rows1"
  shows "continuous_expr (r_lhs y) \<and> continuous_expr (r_rhs y)"
proof -
  from part1_Inr [OF assms(1)] obtain B F VC NC PD HMin HMax where
    c: "Constraint ''Balance'' (\<lambda>(oi, t). OT oi t) (List.product Os T) (balance_rule ps Os T) = Inr B"
    "Constraint ''FinalStock'' Oi Os (final_stock_rule ps Os T) = Inr F"
    "Constraint ''VegCapacity'' Ti T
        (\<lambda>t. andThen (param ps ''max_veg_refine_per_month'') (capacity_rule oils Os T t ''Veg''))
        = Inr VC"
    "Constraint ''NonVegCapacity'' Ti T
        (\<lambda>t. andThen (param ps ''max_nonveg_refine_per_month'') (capacity_rule oils Os T t ''NonVeg''))
        = Inr NC"
    "Constraint ''ProductionDef'' Ti T (production_def Os T) = Inr PD"
    "Constraint ''HardnessMin'' Ti T (hardness_min_rule ps oils Os T) = Inr HMin"
    "Constraint ''HardnessMax'' Ti T (hardness_max_rule ps oils Os T) = Inr HMax"
    and r1: "rows1 = B @ F @ VC @ NC @ PD @ HMin @ HMax"
    by blast
  from assms(2) consider "y \<in> set B" | "y \<in> set F" | "y \<in> set VC" | "y \<in> set NC"
    | "y \<in> set PD" | "y \<in> set HMin" | "y \<in> set HMax"
    by (auto simp: r1)
  then show ?thesis
  proof cases
    case 1
    show ?thesis by (rule Constraint_continuous [OF c(1) balance_rule_continuous 1])
  next
    case 2
    show ?thesis by (rule Constraint_continuous [OF c(2) final_stock_rule_continuous 2])
  next
    case 3
    show ?thesis
      by (rule Constraint_continuous [OF c(3) _ 3])
        (auto simp: andThen_Inr dest: capacity_rule_continuous)
  next
    case 4
    show ?thesis
      by (rule Constraint_continuous [OF c(4) _ 4])
        (auto simp: andThen_Inr dest: capacity_rule_continuous)
  next
    case 5
    show ?thesis by (rule Constraint_continuous [OF c(5) production_def_continuous 5])
  next
    case 6
    show ?thesis by (rule Constraint_continuous [OF c(6) hardness_min_rule_continuous 6])
  next
    case 7
    show ?thesis by (rule Constraint_continuous [OF c(7) hardness_max_rule_continuous 7])
  qed
qed

lemma objective_rule_continuous:
  assumes "objective_rule ps prices Os T = Inr obj"
  shows "continuous_expr obj"
proof -
  from assms obtain rev purchase storage where
    rev: "revenue ps T = Inr rev"
    and purchase: "purchase_cost prices Os T = Inr purchase"
    and storage: "storage_cost ps Os T = Inr storage"
    and obj: "obj = py_sub (py_sub rev purchase) storage"
    by (auto simp: objective_rule_def andThen_Inr)
  from rev obtain ts1 where
    t1: "traverse (\<lambda>t. andThen (at_T T t) (\<lambda>produce.
                 andThen (param ps ''product_sales_price'') (\<lambda>c. Inr (py_mul produce (Const c))))) T
          = Inr ts1"
    and r1: "rev = py_sum ts1"
    by (auto simp: revenue_def andThen_Inr)
  have c1: "continuous_expr rev"
    unfolding r1 continuous_py_sum
    by (rule traverse_all [OF t1]) (auto simp: andThen_Inr at_T_Inr continuous_simps)
  from purchase obtain ts2 where
    t2: "traverse (\<lambda>(oi, t). andThen (at_OT Os T Buy oi t) (\<lambda>buy.
                 andThen (prices_loc prices t oi) (\<lambda>c. Inr (py_mul buy (Const c)))))
           (List.product Os T) = Inr ts2"
    and r2: "purchase = py_sum ts2"
    by (auto simp: purchase_cost_def andThen_Inr)
  have c2: "continuous_expr purchase"
    unfolding r2 continuous_py_sum
    by (rule traverse_all [OF t2]) (auto simp: andThen_Inr at_OT_Inr continuous_simps)
  from storage obtain ts3 where
    t3: "traverse (\<lambda>(oi, t). andThen (at_OT Os T Stock oi t) (\<lambda>stock.
                 andThen (param ps ''storage_cost_per_ton'') (\<lambda>c. Inr (py_mul stock (Const c)))))
           (List.product Os T) = Inr ts3"
    and r3: "storage = py_sum ts3"
    by (auto simp: storage_cost_def andThen_Inr)
  have c3: "continuous_expr storage"
    unfolding r3 continuous_py_sum
    by (rule traverse_all [OF t3]) (auto simp: andThen_Inr at_OT_Inr continuous_simps)
  from c1 c2 c3 show ?thesis by (simp add: obj continuous_simps)
qed

lemma declare_vars_continuous:
  "d \<in> set (declare_vars False Os T cap) \<Longrightarrow> continuous_var (v_var d)"
  by (auto simp: declare_vars_def)

lemma declare_vars_mode:
  "declare_vars True Os T cap = declare_vars False Os T cap
     @ map (\<lambda>(oi, t). \<lparr>v_var = IsUsed oi t, v_domain = Binary, v_bounds = None\<rparr>) (List.product Os T)"
  by (simp add: declare_vars_def)

lemma restrict_feasible:
  assumes "build False oils prices ps = Inr mc" and "feasible mc a"
  shows "feasible mc (restrict_continuous a)"
proof -
  note f = build_fields [OF assms(1)]
  from f(5) obtain cap where vars: "m_vars mc = declare_vars False (m_O mc) (m_T mc) cap"
    by blast
  from f(6) obtain rows1 where p1: "part1 ps oils (m_O mc) (m_T mc) = Inr rows1"
    and rows: "m_rows mc = rows1"
    by auto
  have "in_domain d (restrict_continuous a (v_var d))" if "d \<in> set (m_vars mc)" for d
    using feasible_var [OF assms(2) that] declare_vars_continuous [of d] that
    by (simp add: vars restrict_continuous_def)
  moreover have "satisfies (restrict_continuous a) y" if "y \<in> set (m_rows mc)" for y
    using feasible_row [OF assms(2) that] part1_continuous [OF p1, of y] that
    by (simp add: rows satisfies_def eval_restrict)
  ultimately show ?thesis by (simp add: feasible_def list_all_iff)
qed

lemma build_modes:
  assumes "build True oils prices ps = Inr md" and "build False oils prices ps = Inr mc"
  shows "m_O md = m_O mc" and "m_T md = m_T mc"
    and "\<exists>extra. m_vars md = m_vars mc @ extra"
    and "\<exists>extra. m_rows md = m_rows mc @ extra"
    and "m_objective md = m_objective mc"
proof -
  note d = build_fields [OF assms(1)] and c = build_fields [OF assms(2)]
  show sets: "m_O md = m_O mc" "m_T md = m_T mc" by (simp_all add: d c)
  from d(5) c(5) show "\<exists>extra. m_vars md = m_vars mc @ extra"
    by (auto simp: sets declare_vars_mode)
  from d(6) c(6) show "\<exists>extra. m_rows md = m_rows mc @ extra"
    by (auto simp: sets)
  from d(4) c(4) show "m_objective md = m_objective mc" by (simp add: sets)
qed

lemma discrete_feasible_continuous:
  assumes "build True oils prices ps = Inr md" and "build False oils prices ps = Inr mc"
    and "feasible md a"
  shows "feasible mc a"
  using build_modes(3,4) [OF assms(1,2)] assms(3) by (auto simp: feasible_def)

lemma logic_veg1_rule_Inr:
  "logic_veg1_rule Os T t = Inr rr \<longleftrightarrow>
     ''VEG1'' \<in> set Os \<and> ''OIL3'' \<in> set Os \<and> t \<in> set T
     \<and> rr = Relational (V (IsUsed ''VEG1'' t)) LessEq (V (IsUsed ''OIL3'' t))"
  unfolding logic_veg1_rule_def by (auto simp: andThen_Inr at_OT_Inr)

lemma logic_veg2_rule_Inr:
  "logic_veg2_rule Os T t = Inr rr \<longleftrightarrow>
     ''VEG2'' \<in> set Os \<and> ''OIL3'' \<in> set Os \<and> t \<in> set T
     \<and> rr = Relational (V (IsUsed ''VEG2'' t)) LessEq (V (IsUsed ''OIL3'' t))"
  unfolding logic_veg2_rule_def by (auto simp: andThen_Inr at_OT_Inr)

lemma Constraint_map:
  assumes "Constraint name tag index rule = Inr rows"
    and "\<And>i rr. i \<in> set index \<Longrightarrow> rule i = Inr rr \<Longrightarrow> rr = Relational (l i) (r i) (rhs i)"
  shows "rows = map (\<lambda>i. \<lparr>r_name = name, r_index = tag i, r_lhs = l i, r_rel = r i,
                            r_rhs = rhs i\<rparr>) index"
proof -
  let ?f = "\<lambda>i. case rule i of Inl e \<Rightarrow> Inl e | Inr (PyBool b) \<Rightarrow> Inl (ValueError name)
          | Inr (Relational l r rhs) \<Rightarrow>
              Inr \<lparr>r_name = name, r_index = tag i, r_lhs = l, r_rel = r, r_rhs = rhs\<rparr>"
  from assms(1) have "list_all2 (\<lambda>i y. ?f i = Inr y) index rows"
    by (simp add: Constraint_def traverse_Inr_D)
  then show ?thesis using assms(2)
  proof (induction rule: list_all2_induct)
    case Nil
    then show ?case by simp
  next
    case (Cons i js y ys)
    from Cons.hyps(1) obtain rr where rr: "rule i = Inr rr"
      by (cases "rule i") auto
    with Cons.prems [of i rr] have "rule i = Inr (Relational (l i) (r i) (rhs i))" by simp
    with Cons.hyps(1) have "y = \<lparr>r_name = name, r_index = tag i, r_lhs = l i, r_rel = r i,
                            r_rhs = rhs i\<rparr>"
      by simp
    moreover have "ys = map (\<lambda>i. \<lparr>r_name = name, r_index = tag i, r_lhs = l i, r_rel = r i,
                            r_rhs = rhs i\<rparr>) js"
      by (rule Cons.IH) (use Cons.prems in auto)
    ultimately show ?case by simp
  qed
qed

lemma Constraint_name:
  assumes "Constraint name tag index rule = Inr rows"
  shows "\<forall>y\<in>set rows. r_name y = name"
proof
  fix y
  assume "y \<in> set rows"
  from Constraint_row [OF assms this] show "r_name y = name" by auto
qed

lemma filter_other_name:
  assumes "\<forall>y\<in>set rows. r_name y = name" and "name \<noteq> n"
  shows "filter (\<lambda>r. r_name r = n) rows = []"
  using assms by (auto simp: filter_empty_conv)

lemma filter_same_name:
  assumes "\<forall>y\<in>set rows. r_name y = n"
  shows "filter (\<lambda>r. r_name r = n) rows = rows"
  using assms by (auto simp: filter_id_conv)

lemma build_rows_all:
  assumes "build True oils prices ps = Inr m"
  obtains B F VC NC PD HMin HMax L M X V1 V2 where
    "m_rows m = B @ F @ VC @ NC @ PD @ HMin @ HMax @ L @ M @ X @ V1 @ V2"
    "\<forall>y\<in>set B. r_name y = ''Balance''"
    "\<forall>y\<in>set F. r_name y = ''FinalStock''"
    "\<forall>y\<in>set VC. r_name y = ''VegCapacity''"
    "\<forall>y\<in>set NC. r_name y = ''NonVegCapacity''"
    "\<forall>y\<in>set PD. r_name y = ''ProductionDef''"
    "\<forall>y\<in>set HMin. r_name y = ''HardnessMin''"
    "\<forall>y\<in>set HMax. r_name y = ''HardnessMax''"
    "\<forall>y\<in>set L. r_name y = ''LinkVars''"
    "\<forall>y\<in>set M. r_name y = ''MinThreshold''"
    "\<forall>y\<in>set X. r_name y = ''MaxIngredients''"
    "Constraint ''LogicVeg1'' Ti (m_T m) (logic_veg1_rule (m_O m) (m_T m)) = Inr V1"
    "Constraint ''LogicVeg2'' Ti (m_T m) (logic_veg2_rule (m_O m) (m_T m)) = Inr V2"
proof -
  from build_fields(6) [OF assms] obtain rows1 rows2
    where p1: "part1 ps oils (m_O m) (m_T m) = Inr rows1"
      and p2: "part2 ps (m_O m) (m_T m) = Inr rows2"
      and rows: "m_rows m = rows1 @ rows2"
    by auto
  from part1_Inr [OF p1] obtain B F VC NC PD HMin HMax where
    c1: "Constraint ''Balance'' (\<lambda>(oi, t). OT oi t) (List.product (m_O m) (m_T m))
       (balance_rule ps (m_O m) (m_T m)) = Inr B"
    "Constraint ''FinalStock'' Oi (m_O m) (final_stock_rule ps (m_O m) (m_T m)) = Inr F"
    "Constraint ''VegCapacity'' Ti (m_T m)
        (\<lambda>t. andThen (param ps ''max_veg_refine_per_month'')
                (capacity_rule oils (m_O m) (m_T m) t ''Veg'')) = Inr VC"
    "Constraint ''NonVegCapacity'' Ti (m_T m)
        (\<lambda>t. andThen (param ps ''max_nonveg_refine_per_month'')
                (capacity_rule oils (m_O m) (m_T m) t ''NonVeg'')) = Inr NC"
    "Constraint ''ProductionDef'' Ti (m_T m) (production_def (m_O m) (m_T m)) = Inr PD"
    "Constraint ''HardnessMin'' Ti (m_T m) (hardness_min_rule ps oils (m_O m) (m_T m)) = Inr HMin"
    "Constraint ''HardnessMax'' Ti (m_T m) (hardness_max_rule ps oils (m_O m) (m_T m)) = Inr HMax"
    and r1: "rows1 = B @ F @ VC @ NC @ PD @ HMin @ HMax"
    by blast
  from part2_Inr [OF p2] obtain L M X V1 V2 where
    c2: "Constraint ''LinkVars'' (\<lambda>(oi, t). OT oi t) (List.product (m_O m) (m_T m))
       (link_rule (m_O m) (m_T m)) = Inr L"
    "Constraint ''MinThreshold'' (\<lambda>(oi, t). OT oi t) (List.product (m_O m) (m_T m))
       (min_usage_rule ps (m_O m) (m_T m)) = Inr M"
    "Constraint ''MaxIngredients'' Ti (m_T m) (max_ingredients_rule ps (m_O m) (m_T m)) = Inr X"
    "Constraint ''LogicVeg1'' Ti (m_T m) (logic_veg1_rule (m_O m) (m_T m)) = Inr V1"
    "Constraint ''LogicVeg2'' Ti (m_T m) (logic_veg2_rule (m_O m) (m_T m)) = Inr V2"
    and r2: "rows2 = L @ M @ X @ V1 @ V2"
    by blast
  have rows': "m_rows m = B @ F @ VC @ NC @ PD @ HMin @ HMax @ L @ M @ X @ V1 @ V2"
    by (simp add: rows r1 r2)
  show thesis
    by (rule that [OF rows' Constraint_name [OF c1(1)] Constraint_name [OF c1(2)]
        Constraint_name [OF c1(3)] Constraint_name [OF c1(4)] Constraint_name [OF c1(5)]
        Constraint_name [OF c1(6)] Constraint_name [OF c1(7)] Constraint_name [OF c2(1)]
        Constraint_name [OF c2(2)] Constraint_name [OF c2(3)] c2(4) c2(5)])
qed

lemma traverse_Inr_map:
  assumes "\<And>x. x \<in> set xs \<Longrightarrow> f x = Inr (g x)"
  shows "traverse f xs = Inr (map g xs)"
  using assms by (induction xs) simp_all

lemma extract_results_Inr:
  assumes "\<forall>t\<in>set (m_T m). \<forall>oi\<in>set (m_O m).
             m_value m (Buy oi t) \<noteq> None \<and> m_value m (Use oi t) \<noteq> None
           \<and> m_value m (Stock oi t) \<noteq> None"
  shows "extract_results m = Inr (map (\<lambda>(t, oi).
            \<lparr>res_Month = t, res_Oil = oi, res_Buy = the (m_value m (Buy oi t)),
             res_Use = the (m_value m (Use oi t)), res_Stock = the (m_value m (Stock oi t))\<rparr>)
          (List.product (m_T m) (m_O m)))"
  unfolding extract_results_def
proof (rule traverse_Inr_map)
  fix x
  assume "x \<in> set (List.product (m_T m) (m_O m))"
  then obtain t oi where x: "x = (t, oi)" and "t \<in> set (m_T m)" "oi \<in> set (m_O m)"
    by auto
  with assms obtain b u s where "m_value m (Buy oi t) = Some b"
    "m_value m (Use oi t) = Some u" "m_value m (Stock oi t) = Some s"
    by fastforce
  then show "(case x of (t, oi) \<Rightarrow>
        andThen (pyo_value m (Buy oi t)) (\<lambda>b.
        andThen (pyo_value m (Use oi t)) (\<lambda>u.
        andThen (pyo_value m (Stock oi t)) (\<lambda>s.
        Inr \<lparr>res_Month = t, res_Oil = oi, res_Buy = b, res_Use = u, res_Stock = s\<rparr>))))
     = Inr (case x of (t, oi) \<Rightarrow>
            \<lparr>res_Month = t, res_Oil = oi, res_Buy = the (m_value m (Buy oi t)),
             res_Use = the (m_value m (Use oi t)), res_Stock = the (m_value m (Stock oi t))\<rparr>)"
    by (simp add: x andThen_def pyo_value_def)
qed

lemma build_no_values:
  assumes "build flag oils prices ps = Inr m"
  shows "m_value m = Map.empty"
  using build_Inr [OF assms] by auto

lemma foldl_py_add_Add: "\<exists>c d. foldl py_add (Add a b) es = Add c d"
  by (induction es arbitrary: a b) auto

lemma py_sum_vars:
  assumes "es \<noteq> []" and "\<forall>e\<in>set es. \<exists>v. e = V v"
  shows "\<exists>c d. py_sum es = Add c d"
proof -
  from assms obtain v rest where "es = V v # rest" by (cases es) auto
  then show ?thesis using foldl_py_add_Add [of "Const 0" "V v" rest]
    by (simp add: py_sum_def)
qed

lemma py_rel_Add: "py_rel r (Add a b) e = Relational (Add a b) r e"
  by simp

lemma Constraint_Inr_I:
  assumes "\<And>i. i \<in> set index \<Longrightarrow> \<exists>l r rhs. rule i = Inr (Relational l r rhs)"
  shows "\<exists>rows. Constraint name tag index rule = Inr rows"
proof -
  let ?f = "\<lambda>i. case rule i of Inl e \<Rightarrow> Inl e | Inr (PyBool b) \<Rightarrow> Inl (ValueError name)
          | Inr (Relational l r rhs) \<Rightarrow>
              Inr \<lparr>r_name = name, r_index = tag i, r_lhs = l, r_rel = r, r_rhs = rhs\<rparr>"
  have "traverse ?f index = Inr (map (\<lambda>i. projr (?f i)) index)"
  proof (rule traverse_Inr_map)
    fix i
    assume "i \<in> set index"
    from assms [OF this] show "?f i = Inr (projr (?f i))" by auto
  qed
  then show ?thesis by (auto simp: Constraint_def)
qed

lemma uses_Inr:
  assumes "set xs \<subseteq> set Os" and "t \<in> set T"
  shows "traverse (\<lambda>oi. at_OT Os T X oi t) xs = Inr (map (\<lambda>oi. V (X oi t)) xs)"
  by (rule traverse_Inr_map) (use assms in \<open>auto simp: at_OT_def\<close>)

lemma balance_rule_ok:
  assumes "oi \<in> set Os" and "t \<in> set T" and "ps ''initial_stock'' \<noteq> None"
    and "t = hd T \<or> t - 1 \<in> set T"
  shows "\<exists>l r rhs. balance_rule ps Os T (oi, t) = Inr (Relational l r rhs)"
proof -
  from assms(2) have "set_first T = Inr (hd T)" by (cases T) (auto simp: set_first_def)
  with assms show ?thesis
    by (auto simp: balance_rule_def andThen_def at_OT_def param_def)
qed

lemma final_stock_rule_ok:
  assumes "oi \<in> set Os" and "T \<noteq> []" and "ps ''target_final_stock'' \<noteq> None"
  shows "\<exists>l r rhs. final_stock_rule ps Os T oi = Inr (Relational l r rhs)"
  using assms by (auto simp: final_stock_rule_def andThen_def at_OT_def param_def set_last_def)

lemma capacity_rule_ok:
  assumes "list_ex (\<lambda>r. oil_type r = ty) oils" and "t \<in> set T" and "ps k \<noteq> None"
  shows "\<exists>l r rhs. andThen (param ps k) (capacity_rule oils (map oil_id oils) T t ty)
           = Inr (Relational l r rhs)"
proof -
  let ?rel = "map oil_id (filter (\<lambda>r. oil_type r = ty) oils)"
  from assms(3) obtain c where c: "param ps k = Inr c" by (auto simp: param_def)
  have tr: "traverse (\<lambda>oi. at_OT (map oil_id oils) T Use oi t) ?rel
              = Inr (map (\<lambda>oi. V (Use oi t)) ?rel)"
    by (rule uses_Inr) (use assms(2) in auto)
  from assms(1) have "map (\<lambda>oi. V (Use oi t)) ?rel \<noteq> []"
    by (auto simp: list_ex_iff filter_empty_conv)
  then obtain a b where "py_sum (map (\<lambda>oi. V (Use oi t)) ?rel) = Add a b"
    using py_sum_vars [of "map (\<lambda>oi. V (Use oi t)) ?rel"] by auto
  with c tr show ?thesis
    by (simp add: capacity_rule_def andThen_def)
qed

lemma production_def_ok:
  assumes "t \<in> set T"
  shows "\<exists>l r rhs. production_def Os T t = Inr (Relational l r rhs)"
  using assms uses_Inr [of Os Os t T Use]
  by (simp add: production_def_def andThen_def at_T_def)

lemma total_hardness_ok:
  assumes "t \<in> set T"
  shows "\<exists>e. total_hardness oils (map oil_id oils) T t = Inr e"
proof -
  let ?f = "\<lambda>oi. andThen (oils_loc_hardness oils oi) (\<lambda>h.
                  andThen (at_OT (map oil_id oils) T Use oi t) (\<lambda>use. Inr (py_mul (Const h) use)))"
  have "traverse ?f (map oil_id oils) = Inr (map (\<lambda>oi. projr (?f oi)) (map oil_id oils))"
  proof (rule traverse_Inr_map)
    fix oi
    assume oi: "oi \<in> set (map oil_id oils)"
    then have "oi \<in> fst ` set (map (\<lambda>r. (oil_id r, hardness r)) oils)" by force
    then obtain h where "map_of (map (\<lambda>r. (oil_id r, hardness r)) oils) oi = Some h"
      by (metis domD dom_map_of_conv_image_fst)
    with oi assms show "?f oi = Inr (projr (?f oi))"
      by (simp add: oils_loc_hardness_def andThen_def at_OT_def)
  qed
  then show ?thesis by (simp add: total_hardness_def andThen_def)
qed

lemma hardness_rules_ok:
  assumes "t \<in> set T" and "ps ''min_hardness'' \<noteq> None" and "ps ''max_hardness'' \<noteq> None"
  shows "\<exists>l r rhs. hardness_min_rule ps oils (map oil_id oils) T t = Inr (Relational l r rhs)"
    and "\<exists>l r rhs. hardness_max_rule ps oils (map oil_id oils) T t = Inr (Relational l r rhs)"
  using assms total_hardness_ok [OF assms(1), of oils]
  by (auto simp: hardness_min_rule_def hardness_max_rule_def andThen_def param_def at_T_def
      py_rel_Mul)

lemma part1_ok:
  assumes "well_formed flag oils prices ps"
  shows "\<exists>rows1. part1 ps oils (map oil_id oils) (p_index prices) = Inr rows1"
proof -
  let ?O = "map oil_id oils" and ?T = "p_index prices"
  from assms have T: "?T \<noteq> []"
    and gap: "\<And>t. t \<in> set ?T \<Longrightarrow> t = hd ?T \<or> t - 1 \<in> set ?T"
    and veg: "list_ex (\<lambda>r. oil_type r = ''Veg'') oils"
    and nonveg: "list_ex (\<lambda>r. oil_type r = ''NonVeg'') oils"
    and keys: "\<And>k. k \<in> set (required_keys flag) \<Longrightarrow> ps k \<noteq> None"
    by (auto simp: well_formed_def list_all_iff)
  have k: "ps ''initial_stock'' \<noteq> None" "ps ''target_final_stock'' \<noteq> None"
    "ps ''max_veg_refine_per_month'' \<noteq> None" "ps ''max_nonveg_refine_per_month'' \<noteq> None"
    "ps ''min_hardness'' \<noteq> None" "ps ''max_hardness'' \<noteq> None"
    by (rule keys, simp add: required_keys_def)+
  obtain B where B: "Constraint ''Balance'' (\<lambda>(oi, t). OT oi t) (List.product ?O ?T)
      (balance_rule ps ?O ?T) = Inr B"
    using Constraint_Inr_I [of "List.product ?O ?T" "balance_rule ps ?O ?T"]
      balance_rule_ok [where ps = ps, OF _ _ k(1)] gap by fastforce
  obtain F where F: "Constraint ''FinalStock'' Oi ?O (final_stock_rule ps ?O ?T) = Inr F"
    using Constraint_Inr_I [of ?O "final_stock_rule ps ?O ?T"]
      final_stock_rule_ok [where ps = ps and T = "p_index prices", OF _ T k(2)] by blast
  obtain VC where VC: "Constraint ''VegCapacity'' Ti ?T
        (\<lambda>t. andThen (param ps ''max_veg_refine_per_month'') (capacity_rule oils ?O ?T t ''Veg''))
      = Inr VC"
    using Constraint_Inr_I [of ?T "\<lambda>t. andThen (param ps ''max_veg_refine_per_month'')
        (capacity_rule oils ?O ?T t ''Veg'')"] capacity_rule_ok [where ps = ps, OF veg _ k(3)] by blast
  obtain NC where NC: "Constraint ''NonVegCapacity'' Ti ?T
        (\<lambda>t. andThen (param ps ''max_nonveg_refine_per_month'')
                (capacity_rule oils ?O ?T t ''NonVeg''))
      = Inr NC"
    using Constraint_Inr_I [of ?T "\<lambda>t. andThen (param ps ''max_nonveg_refine_per_month'')
        (capacity_rule oils ?O ?T t ''NonVeg'')"] capacity_rule_ok [where ps = ps, OF nonveg _ k(4)] by blast
  obtain PD where PD: "Constraint ''ProductionDef'' Ti ?T (production_def ?O ?T) = Inr PD"
    using Constraint_Inr_I [of ?T "production_def ?O ?T"] production_def_ok by blast
  obtain HMin where HMin: "Constraint ''HardnessMin'' Ti ?T (hardness_min_rule ps oils ?O ?T)
      = Inr HMin"
    using Constraint_Inr_I [of ?T "hardness_min_rule ps oils ?O ?T"]
      hardness_rules_ok(1) [where ps = ps, OF _ k(5,6)] by blast
  obtain HMax where HMax: "Constraint ''HardnessMax'' Ti ?T (hardness_max_rule ps oils ?O ?T)
      = Inr HMax"
    using Constraint_Inr_I [of ?T "hardness_max_rule ps oils ?O ?T"]
      hardness_rules_ok(2) [where ps = ps, OF _ k(5,6)] by blast
  from B F VC NC PD HMin HMax show ?thesis
    by (simp add: part1_def andThen_def)
qed

lemma part2_ok:
  assumes "well_formed True oils prices ps"
  shows "\<exists>rows2. part2 ps (map oil_id oils) (p_index prices) = Inr rows2"
proof -
  let ?O = "map oil_id oils" and ?T = "p_index prices"
  from assms have keys: "\<And>k. k \<in> set (required_keys True) \<Longrightarrow> ps k \<noteq> None"
    and ids: "''VEG1'' \<in> set ?O" "''VEG2'' \<in> set ?O" "''OIL3'' \<in> set ?O"
    by (auto simp: well_formed_def list_all_iff)
  have "ps ''min_usage_if_used'' \<noteq> None" "ps ''max_ingredients_per_month'' \<noteq> None"
    by (rule keys, simp add: required_keys_def)+
  then obtain c1 c2 where k: "param ps ''min_usage_if_used'' = Inr c1"
    "param ps ''max_ingredients_per_month'' = Inr c2"
    by (auto simp: param_def)
  from ids(1) have ne: "?O \<noteq> []" by auto
  obtain L where L: "Constraint ''LinkVars'' (\<lambda>(oi, t). OT oi t) (List.product ?O ?T)
      (link_rule ?O ?T) = Inr L"
    using Constraint_Inr_I [of "List.product ?O ?T" "link_rule ?O ?T"]
    by (fastforce simp: link_rule_def andThen_def at_OT_def)
  obtain M where M: "Constraint ''MinThreshold'' (\<lambda>(oi, t). OT oi t) (List.product ?O ?T)
      (min_usage_rule ps ?O ?T) = Inr M"
    using Constraint_Inr_I [of "List.product ?O ?T" "min_usage_rule ps ?O ?T"] k(1)
    by (fastforce simp: min_usage_rule_def andThen_def at_OT_def)
  have mi: "\<exists>l r rhs. max_ingredients_rule ps ?O ?T t = Inr (Relational l r rhs)"
    if t: "t \<in> set ?T" for t
  proof -
    have tr: "traverse (\<lambda>oi. at_OT ?O ?T IsUsed oi t) ?O = Inr (map (\<lambda>oi. V (IsUsed oi t)) ?O)"
      by (rule uses_Inr) (use t in auto)
    from ne obtain a b where "py_sum (map (\<lambda>oi. V (IsUsed oi t)) ?O) = Add a b"
      using py_sum_vars [of "map (\<lambda>oi. V (IsUsed oi t)) ?O"] by auto
    with tr k(2) show ?thesis by (simp add: max_ingredients_rule_def andThen_def)
  qed
  obtain X where X: "Constraint ''MaxIngredients'' Ti ?T (max_ingredients_rule ps ?O ?T) = Inr X"
    using Constraint_Inr_I [of ?T "max_ingredients_rule ps ?O ?T"] mi by blast
  obtain V1 where V1: "Constraint ''LogicVeg1'' Ti ?T (logic_veg1_rule ?O ?T) = Inr V1"
    using Constraint_Inr_I [of ?T "logic_veg1_rule ?O ?T"] ids
    by (fastforce simp: logic_veg1_rule_Inr)
  obtain V2 where V2: "Constraint ''LogicVeg2'' Ti ?T (logic_veg2_rule ?O ?T) = Inr V2"
    using Constraint_Inr_I [of ?T "logic_veg2_rule ?O ?T"] ids
    by (fastforce simp: logic_veg2_rule_Inr)
  from L M X V1 V2 show ?thesis by (simp add: part2_def andThen_def)
qed

lemma objective_rule_ok:
  assumes "well_formed flag oils prices ps"
  shows "\<exists>obj. objective_rule ps prices (map oil_id oils) (p_index prices) = Inr obj"
proof -
  let ?O = "map oil_id oils" and ?T = "p_index prices"
  from assms have keys: "\<And>k. k \<in> set (required_keys flag) \<Longrightarrow> ps k \<noteq> None"
    and cols: "\<And>r. r \<in> set oils \<Longrightarrow> oil_id r \<in> set (p_columns prices)"
    by (auto simp: well_formed_def list_all_iff)
  have "ps ''product_sales_price'' \<noteq> None" "ps ''storage_cost_per_ton'' \<noteq> None"
    by (rule keys, simp add: required_keys_def)+
  then obtain c1 c2 where k: "param ps ''product_sales_price'' = Inr c1"
    "param ps ''storage_cost_per_ton'' = Inr c2"
    by (auto simp: param_def)
  let ?f1 = "\<lambda>t. andThen (at_T ?T t) (\<lambda>produce.
               andThen (param ps ''product_sales_price'') (\<lambda>c. Inr (py_mul produce (Const c))))"
  let ?f2 = "\<lambda>(oi, t). andThen (at_OT ?O ?T Buy oi t) (\<lambda>buy.
               andThen (prices_loc prices t oi) (\<lambda>c. Inr (py_mul buy (Const c))))"
  let ?f3 = "\<lambda>(oi, t). andThen (at_OT ?O ?T Stock oi t) (\<lambda>stock.
               andThen (param ps ''storage_cost_per_ton'') (\<lambda>c. Inr (py_mul stock (Const c))))"
  have "traverse ?f1 ?T = Inr (map (\<lambda>t. projr (?f1 t)) ?T)"
    by (rule traverse_Inr_map) (simp add: k andThen_def at_T_def)
  then have r: "\<exists>e. revenue ps ?T = Inr e" by (simp add: revenue_def andThen_def)
  have "traverse ?f2 (List.product ?O ?T) = Inr (map (\<lambda>x. projr (?f2 x)) (List.product ?O ?T))"
    by (rule traverse_Inr_map) (use cols in \<open>auto simp: andThen_def at_OT_def prices_loc_def\<close>)
  then have p: "\<exists>e. purchase_cost prices ?O ?T = Inr e"
    by (simp add: purchase_cost_def andThen_def)
  have "traverse ?f3 (List.product ?O ?T) = Inr (map (\<lambda>x. projr (?f3 x)) (List.product ?O ?T))"
    by (rule traverse_Inr_map) (auto simp: k andThen_def at_OT_def)
  then have s: "\<exists>e. storage_cost ps ?O ?T = Inr e"
    by (simp add: storage_cost_def andThen_def)
  from r p s show ?thesis by (auto simp: objective_rule_def andThen_def)
qed

lemma build_ok:
  assumes "well_formed flag oils prices ps"
  shows "\<exists>m. build flag oils prices ps = Inr m"
proof -
  from assms have "ps ''storage_capacity_per_oil'' \<noteq> None"
    by (simp add: well_formed_def required_keys_def)
  then obtain cap where cap: "param ps ''storage_capacity_per_oil'' = Inr cap"
    by (auto simp: param_def)
  from part1_ok [OF assms] obtain rows1
    where p1: "part1 ps oils (map oil_id oils) (p_index prices) = Inr rows1" by blast
  have "\<exists>rows2. (if flag then part2 ps (map oil_id oils) (p_index prices) else Inr []) = Inr rows2"
    using part2_ok [of oils prices ps] assms by (cases flag) auto
  then obtain rows2
    where p2: "(if flag then part2 ps (map oil_id oils) (p_index prices) else Inr []) = Inr rows2"
    by blast
  from objective_rule_ok [OF assms] obtain obj
    where obj: "objective_rule ps prices (map oil_id oils) (p_index prices) = Inr obj" by blast
  from cap p1 p2 obj show ?thesis
    by (simp add: build_def Let_def andThen_def)
qed

lemma build_reads_keys:
  assumes "build flag oils prices ps = Inr m" and "oils \<noteq> []" and "p_index prices \<noteq> []"
    and "k \<in> set (required_keys flag)"
  shows "ps k \<noteq> None"
proof -
  let ?O = "m_O m" and ?T = "m_T m"
  note f = build_fields [OF assms(1)]
  from assms(2,3) have "?O \<noteq> []" and "?T \<noteq> []" by (simp_all add: f(1,2))
  then have o: "hd ?O \<in> set ?O" and t: "hd ?T \<in> set ?T" by simp_all
  then have ot: "(hd ?O, hd ?T) \<in> set (List.product ?O ?T)" by simp
  from assms(1) obtain B F VC NC PD HMin HMax where
    c: "Constraint ''Balance'' (\<lambda>(oi, t). OT oi t) (List.product ?O ?T)
       (balance_rule ps ?O ?T) = Inr B"
    "Constraint ''FinalStock'' Oi ?O (final_stock_rule ps ?O ?T) = Inr F"
    "Constraint ''VegCapacity'' Ti ?T
        (\<lambda>t. andThen (param ps ''max_veg_refine_per_month'')
                (capacity_rule oils ?O ?T t ''Veg'')) = Inr VC"
    "Constraint ''NonVegCapacity'' Ti ?T
        (\<lambda>t. andThen (param ps ''max_nonveg_refine_per_month'')
                (capacity_rule oils ?O ?T t ''NonVeg'')) = Inr NC"
    "Constraint ''ProductionDef'' Ti ?T (production_def ?O ?T) = Inr PD"
    "Constraint ''HardnessMin'' Ti ?T (hardness_min_rule ps oils ?O ?T) = Inr HMin"
    "Constraint ''HardnessMax'' Ti ?T (hardness_max_rule ps oils ?O ?T) = Inr HMax"
    by (rule part1_rows)
  have k1: "ps ''storage_capacity_per_oil'' \<noteq> None" using f(5) by auto
  have k2: "ps ''initial_stock'' \<noteq> None"
    using Constraint_member [OF c(1) ot] balance_rule_Inr [of ps ?O ?T "hd ?O" "hd ?T"]
    by auto
  have k3: "ps ''target_final_stock'' \<noteq> None"
    using Constraint_member [OF c(2) o] final_stock_rule_Inr [of ps ?O ?T "hd ?O"] by auto
  have k4: "ps ''max_veg_refine_per_month'' \<noteq> None"
    using Constraint_member [OF c(3) t] by (auto simp: andThen_Inr param_Inr)
  have k5: "ps ''max_nonveg_refine_per_month'' \<noteq> None"
    using Constraint_member [OF c(4) t] by (auto simp: andThen_Inr param_Inr)
  have k6: "ps ''min_hardness'' \<noteq> None"
    using Constraint_member [OF c(6) t] hardness_min_rule_Inr [of ps oils ?O ?T "hd ?T"] by auto
  have k7: "ps ''max_hardness'' \<noteq> None"
    using Constraint_member [OF c(7) t] hardness_max_rule_Inr [of ps oils ?O ?T "hd ?T"] by auto
  from f(4) obtain rev storage where
    rev: "revenue ps ?T = Inr rev" and storage: "storage_cost ps ?O ?T = Inr storage"
    by (auto simp: objective_rule_def andThen_Inr)
  have k8: "ps ''product_sales_price'' \<noteq> None"
    using revenue_Inr [OF rev] t by auto
  from ot have ne: "List.product ?O ?T \<noteq> []" by (metis empty_iff list.set(1))
  have k9: "ps ''storage_cost_per_ton'' \<noteq> None"
    using storage_cost_Inr [OF storage] ne by auto
  have k10: "ps ''min_usage_if_used'' \<noteq> None \<and> ps ''max_ingredients_per_month'' \<noteq> None"
    if flag
  proof -
    from assms(1) that have m: "build True oils prices ps = Inr m" by simp
    from m obtain L M X where
      cm: "Constraint ''MinThreshold'' (\<lambda>(oi, t). OT oi t) (List.product ?O ?T)
             (min_usage_rule ps ?O ?T) = Inr M"
      and cx: "Constraint ''MaxIngredients'' Ti ?T (max_ingredients_rule ps ?O ?T) = Inr X"
      by (rule part2_rows)
    have "ps ''min_usage_if_used'' \<noteq> None"
      using Constraint_member [OF cm ot] min_usage_rule_Inr [of ps ?O ?T "hd ?O" "hd ?T"]
      by auto
    moreover have "ps ''max_ingredients_per_month'' \<noteq> None"
      using Constraint_member [OF cx t]
      by (auto simp: max_ingredients_rule_def andThen_Inr param_Inr)
    ultimately show ?thesis by simp
  qed
  from assms(4) k1 k2 k3 k4 k5 k6 k7 k8 k9 k10 show ?thesis
    by (auto simp: required_keys_def split: if_splits)
qed

lemma build_reads_columns:
  assumes "build flag oils prices ps = Inr m" and "p_index prices \<noteq> []" and "r \<in> set oils"
  shows "oil_id r \<in> set (p_columns prices)"
proof -
  note f = build_fields [OF assms(1)]
  from f(4) obtain purchase where "purchase_cost prices (m_O m) (m_T m) = Inr purchase"
    by (auto simp: objective_rule_def andThen_Inr)
  from purchase_cost_columns [OF this, of "oil_id r"] assms(2,3) show ?thesis
    by (simp add: f(1,2))
qed

lemma fow_refl: "fails_only_with e x x"
  by (simp add: fails_only_with_def)

lemma fow_andThen:
  assumes "fails_only_with e x x'" and "\<And>v. fails_only_with e (f v) (f' v)"
  shows "fails_only_with e (andThen x f) (andThen x' f')"
  using assms by (cases x; cases x') (auto simp: fails_only_with_def andThen_def)

lemma fow_traverse:
  assumes "\<And>i. fails_only_with e (f i) (f' i)"
  shows "fails_only_with e (traverse f xs) (traverse f' xs)"
proof (induction xs)
  case Nil
  show ?case by (simp add: fow_refl)
next
  case (Cons x xs)
  from assms [of x] Cons show ?case
    by (cases "f x"; cases "f' x"; cases "traverse f xs"; cases "traverse f' xs")
      (auto simp: fails_only_with_def)
qed

lemma fow_Constraint:
  assumes "\<And>i. fails_only_with e (rule i) (rule' i)"
  shows "fails_only_with e (Constraint name tag index rule) (Constraint name tag index rule')"
  unfolding Constraint_def
proof (rule fow_traverse)
  fix i
  from assms [of i]
  show "fails_only_with e
      (case rule i of Inl e \<Rightarrow> Inl e | Inr (PyBool b) \<Rightarrow> Inl (ValueError name)
       | Inr (Relational l r rhs) \<Rightarrow>
           Inr \<lparr>r_name = name, r_index = tag i, r_lhs = l, r_rel = r, r_rhs = rhs\<rparr>)
      (case rule' i of Inl e \<Rightarrow> Inl e | Inr (PyBool b) \<Rightarrow> Inl (ValueError name)
       | Inr (Relational l r rhs) \<Rightarrow>
           Inr \<lparr>r_name = name, r_index = tag i, r_lhs = l, r_rel = r, r_rhs = rhs\<rparr>)"
    by (cases "rule i"; cases "rule' i")
      (auto simp: fails_only_with_def split: rule_result.splits)
qed

lemma fow_if:
  assumes "c \<Longrightarrow> fails_only_with e x x'" and "\<not> c \<Longrightarrow> fails_only_with e y y'"
  shows "fails_only_with e (if c then x else y) (if c then x' else y')"
  using assms by simp

lemma fow_param: "fails_only_with (KeyError (Param k)) (param ps k') (param (ps(k := None)) k')"
  by (simp add: fails_only_with_def param_def)

lemma fow_prices_loc:
  "fails_only_with (KeyError (Column c)) (prices_loc prices t oi)
     (prices_loc (prices\<lparr>p_columns := removeAll c (p_columns prices)\<rparr>) t oi)"
  by (simp add: fails_only_with_def prices_loc_def)

lemmas fow_intros = fow_andThen fow_traverse fow_Constraint fow_if fow_refl

lemma fow_build:
  assumes P: "\<And>k'. fails_only_with e (param ps k') (param ps' k')"
    and L: "\<And>t oi. fails_only_with e (prices_loc prices t oi) (prices_loc prices' t oi)"
    and I: "p_index prices' = p_index prices"
  shows "fails_only_with e (build flag oils prices ps) (build flag oils prices' ps')"
proof -
  let ?O = "map oil_id oils" and ?T = "p_index prices"
  have b: "fails_only_with e (balance_rule ps ?O ?T i) (balance_rule ps' ?O ?T i)" for i
    unfolding balance_rule_def by (cases i) (auto intro!: fow_intros P)
  have f: "fails_only_with e (final_stock_rule ps ?O ?T i) (final_stock_rule ps' ?O ?T i)" for i
    unfolding final_stock_rule_def by (intro fow_intros P)
  have hmin: "fails_only_with e (hardness_min_rule ps oils ?O ?T i)
      (hardness_min_rule ps' oils ?O ?T i)" for i
    unfolding hardness_min_rule_def by (intro fow_intros P)
  have hmax: "fails_only_with e (hardness_max_rule ps oils ?O ?T i)
      (hardness_max_rule ps' oils ?O ?T i)" for i
    unfolding hardness_max_rule_def by (intro fow_intros P)
  have p1: "fails_only_with e (part1 ps oils ?O ?T) (part1 ps' oils ?O ?T)"
    unfolding part1_def by (intro fow_intros P b f hmin hmax)
  have mu: "fails_only_with e (min_usage_rule ps ?O ?T i) (min_usage_rule ps' ?O ?T i)" for i
    unfolding min_usage_rule_def by (cases i) (auto intro!: fow_intros P)
  have mi: "fails_only_with e (max_ingredients_rule ps ?O ?T i)
      (max_ingredients_rule ps' ?O ?T i)" for i
    unfolding max_ingredients_rule_def by (intro fow_intros P)
  have p2: "fails_only_with e (part2 ps ?O ?T) (part2 ps' ?O ?T)"
    unfolding part2_def by (intro fow_intros P mu mi)
  have rev: "fails_only_with e (revenue ps ?T) (revenue ps' ?T)"
    unfolding revenue_def by (intro fow_intros P)
  have pur: "fails_only_with e (purchase_cost prices ?O ?T) (purchase_cost prices' ?O ?T)"
    unfolding purchase_cost_def
    by (intro fow_andThen fow_traverse fow_refl) (auto intro!: fow_intros L)
  have sto: "fails_only_with e (storage_cost ps ?O ?T) (storage_cost ps' ?O ?T)"
    unfolding storage_cost_def
    by (intro fow_andThen fow_traverse fow_refl) (auto intro!: fow_intros P)
  have obj: "fails_only_with e (objective_rule ps prices ?O ?T) (objective_rule ps' prices' ?O ?T)"
    unfolding objective_rule_def by (intro fow_intros rev pur sto)
  have "fails_only_with e
      (andThen (param ps ''storage_capacity_per_oil'') (\<lambda>cap.
       andThen (part1 ps oils ?O ?T) (\<lambda>rows1.
       andThen (if flag then part2 ps ?O ?T else Inr []) (\<lambda>rows2.
       andThen (objective_rule ps prices ?O ?T) (\<lambda>obj.
       Inr \<lparr>m_T = ?T, m_O = ?O, m_vars = declare_vars flag ?O ?T cap,
            m_rows = rows1 @ rows2, m_objective = obj, m_sense = maximize,
            m_value = Map.empty\<rparr>)))))
      (andThen (param ps' ''storage_capacity_per_oil'') (\<lambda>cap.
       andThen (part1 ps' oils ?O ?T) (\<lambda>rows1.
       andThen (if flag then part2 ps' ?O ?T else Inr []) (\<lambda>rows2.
       andThen (objective_rule ps' prices' ?O ?T) (\<lambda>obj.
       Inr \<lparr>m_T = ?T, m_O = ?O, m_vars = declare_vars flag ?O ?T cap,
            m_rows = rows1 @ rows2, m_objective = obj, m_sense = maximize,
            m_value = Map.empty\<rparr>)))))"
    by (intro fow_intros P p1 p2 obj)
  then show ?thesis by (simp add: build_def Let_def I)
qed

lemma missing_key_KeyError:
  assumes "build flag oils prices ps = Inr m" and "oils \<noteq> []" and "p_index prices \<noteq> []"
    and "k \<in> set (required_keys flag)"
  shows "build flag oils prices (ps(k := None)) = Inl (KeyError (Param k))"
proof -
  have "fails_only_with (KeyError (Param k)) (build flag oils prices ps)
      (build flag oils prices (ps(k := None)))"
    by (rule fow_build) (rule fow_param fow_refl refl)+
  with assms(1) consider "build flag oils prices (ps(k := None)) = Inr m"
    | "build flag oils prices (ps(k := None)) = Inl (KeyError (Param k))"
    by (auto simp: fails_only_with_def)
  then show ?thesis
  proof cases
    case 1
    from build_reads_keys [OF 1 assms(2,3,4)] show ?thesis by simp
  qed
qed

lemma missing_column_KeyError:
  assumes "build flag oils prices ps = Inr m" and "p_index prices \<noteq> []" and "r \<in> set oils"
  shows "build flag oils (prices\<lparr>p_columns := removeAll (oil_id r) (p_columns prices)\<rparr>) ps
           = Inl (KeyError (Column (oil_id r)))"
proof -
  let ?prices' = "prices\<lparr>p_columns := removeAll (oil_id r) (p_columns prices)\<rparr>"
  have "fails_only_with (KeyError (Column (oil_id r))) (build flag oils prices ps)
      (build flag oils ?prices' ps)"
    by (rule fow_build) (simp_all add: fow_refl fow_prices_loc)
  with assms(1) consider "build flag oils ?prices' ps = Inr m"
    | "build flag oils ?prices' ps = Inl (KeyError (Column (oil_id r)))"
    by (auto simp: fails_only_with_def)
  then show ?thesis
  proof cases
    case 1
    from build_reads_columns [OF 1 _ assms(3)] assms(2) show ?thesis by simp
  qed
qed

lemma build_method_Inl:
  assumes "isl (build flag oils prices ps)"
  shows "build_method flag (init oils prices ps)
           = (Inl (projl (build flag oils prices ps)), init oils prices ps)"
    and "self_model (snd (build_method flag (init oils prices ps))) = None"
  using assms by (cases "build flag oils prices ps"; simp add: build_method_def init_def)+

lemma build_method_Inr:
  assumes "build flag oils prices ps = Inr m"
  shows "self_model (snd (build_method flag (init oils prices ps))) = Some m"
  using assms by (simp add: build_method_def init_def)

lemma part1_names:
  assumes "part1 ps oils Os T = Inr rows1"
  shows "\<forall>y\<in>set rows1. r_name y \<in> {''Balance'', ''FinalStock'', ''VegCapacity'',
           ''NonVegCapacity'', ''ProductionDef'', ''HardnessMin'', ''HardnessMax''}"
proof -
  from part1_Inr [OF assms] obtain B F VC NC PD HMin HMax where
    c: "Constraint ''Balance'' (\<lambda>(oi, t). OT oi t) (List.product Os T) (balance_rule ps Os T) = Inr B"
    "Constraint ''FinalStock'' Oi Os (final_stock_rule ps Os T) = Inr F"
    "Constraint ''VegCapacity'' Ti T
        (\<lambda>t. andThen (param ps ''max_veg_refine_per_month'') (capacity_rule oils Os T t ''Veg''))
        = Inr VC"
    "Constraint ''NonVegCapacity'' Ti T
        (\<lambda>t. andThen (param ps ''max_nonveg_refine_per_month'') (capacity_rule oils Os T t ''NonVeg''))
        = Inr NC"
    "Constraint ''ProductionDef'' Ti T (production_def Os T) = Inr PD"
    "Constraint ''HardnessMin'' Ti T (hardness_min_rule ps oils Os T) = Inr HMin"
    "Constraint ''HardnessMax'' Ti T (hardness_max_rule ps oils Os T) = Inr HMax"
    and r1: "rows1 = B @ F @ VC @ NC @ PD @ HMin @ HMax"
    by blast
  from Constraint_name [OF c(1)] Constraint_name [OF c(2)] Constraint_name [OF c(3)]
    Constraint_name [OF c(4)] Constraint_name [OF c(5)] Constraint_name [OF c(6)]
    Constraint_name [OF c(7)]
  show ?thesis unfolding r1 by auto
qed

lemma part2_names:
  assumes "part2 ps Os T = Inr rows2"
  shows "\<forall>y\<in>set rows2. r_name y \<in> {''LinkVars'', ''MinThreshold'', ''MaxIngredients'',
           ''LogicVeg1'', ''LogicVeg2''}"
proof -
  from part2_Inr [OF assms] obtain L M X V1 V2 where
    c: "Constraint ''LinkVars'' (\<lambda>(oi, t). OT oi t) (List.product Os T) (link_rule Os T) = Inr L"
    "Constraint ''MinThreshold'' (\<lambda>(oi, t). OT oi t) (List.product Os T) (min_usage_rule ps Os T)
        = Inr M"
    "Constraint ''MaxIngredients'' Ti T (max_ingredients_rule ps Os T) = Inr X"
    "Constraint ''LogicVeg1'' Ti T (logic_veg1_rule Os T) = Inr V1"
    "Constraint ''LogicVeg2'' Ti T (logic_veg2_rule Os T) = Inr V2"
    and r2: "rows2 = L @ M @ X @ V1 @ V2"
    by blast
  from Constraint_name [OF c(1)] Constraint_name [OF c(2)] Constraint_name [OF c(3)]
    Constraint_name [OF c(4)] Constraint_name [OF c(5)]
  show ?thesis unfolding r2 by auto
qed

lemma part2_members:
  assumes "part2 ps Os T = Inr rows2"
  shows "\<forall>oi\<in>set Os. \<forall>t\<in>set T.
           \<lparr>r_name = ''LinkVars'', r_index = OT oi t, r_lhs = V (Use oi t), r_rel = LessEq,
            r_rhs = Mul (Const big_m) (V (IsUsed oi t))\<rparr> \<in> set rows2
         \<and> (\<exists>c. ps ''min_usage_if_used'' = Some c
              \<and> \<lparr>r_name = ''MinThreshold'', r_index = OT oi t, r_lhs = V (Use oi t),
                  r_rel = GreaterEq, r_rhs = Mul (Const c) (V (IsUsed oi t))\<rparr> \<in> set rows2)"
    and "\<forall>t\<in>set T.
           \<lparr>r_name = ''LogicVeg1'', r_index = Ti t, r_lhs = V (IsUsed ''VEG1'' t),
            r_rel = LessEq, r_rhs = V (IsUsed ''OIL3'' t)\<rparr> \<in> set rows2
         \<and> \<lparr>r_name = ''LogicVeg2'', r_index = Ti t, r_lhs = V (IsUsed ''VEG2'' t),
            r_rel = LessEq, r_rhs = V (IsUsed ''OIL3'' t)\<rparr> \<in> set rows2
         \<and> (\<exists>y\<in>set rows2. r_name y = ''MaxIngredients'' \<and> r_index y = Ti t)"
proof -
  from part2_Inr [OF assms] obtain L M X V1 V2 where
    c: "Constraint ''LinkVars'' (\<lambda>(oi, t). OT oi t) (List.product Os T) (link_rule Os T) = Inr L"
    "Constraint ''MinThreshold'' (\<lambda>(oi, t). OT oi t) (List.product Os T) (min_usage_rule ps Os T)
        = Inr M"
    "Constraint ''MaxIngredients'' Ti T (max_ingredients_rule ps Os T) = Inr X"
    "Constraint ''LogicVeg1'' Ti T (logic_veg1_rule Os T) = Inr V1"
    "Constraint ''LogicVeg2'' Ti T (logic_veg2_rule Os T) = Inr V2"
    and r2: "rows2 = L @ M @ X @ V1 @ V2"
    by blast
  show "\<forall>oi\<in>set Os. \<forall>t\<in>set T.
           \<lparr>r_name = ''LinkVars'', r_index = OT oi t, r_lhs = V (Use oi t), r_rel = LessEq,
            r_rhs = Mul (Const big_m) (V (IsUsed oi t))\<rparr> \<in> set rows2
         \<and> (\<exists>c. ps ''min_usage_if_used'' = Some c
              \<and> \<lparr>r_name = ''MinThreshold'', r_index = OT oi t, r_lhs = V (Use oi t),
                  r_rel = GreaterEq, r_rhs = Mul (Const c) (V (IsUsed oi t))\<rparr> \<in> set rows2)"
  proof (intro ballI)
    fix oi t
    assume "oi \<in> set Os" "t \<in> set T"
    then have idx: "(oi, t) \<in> set (List.product Os T)" by simp
    from Constraint_member [OF c(1) idx] link_rule_Inr [of Os T oi t]
    have "\<lparr>r_name = ''LinkVars'', r_index = OT oi t, r_lhs = V (Use oi t), r_rel = LessEq,
            r_rhs = Mul (Const big_m) (V (IsUsed oi t))\<rparr> \<in> set L"
      by auto
    moreover from Constraint_member [OF c(2) idx] min_usage_rule_Inr [of ps Os T oi t]
    have "\<exists>c. ps ''min_usage_if_used'' = Some c
              \<and> \<lparr>r_name = ''MinThreshold'', r_index = OT oi t, r_lhs = V (Use oi t),
                  r_rel = GreaterEq, r_rhs = Mul (Const c) (V (IsUsed oi t))\<rparr> \<in> set M"
      by auto
    ultimately show "\<lparr>r_name = ''LinkVars'', r_index = OT oi t, r_lhs = V (Use oi t),
            r_rel = LessEq, r_rhs = Mul (Const big_m) (V (IsUsed oi t))\<rparr> \<in> set rows2
         \<and> (\<exists>c. ps ''min_usage_if_used'' = Some c
              \<and> \<lparr>r_name = ''MinThreshold'', r_index = OT oi t, r_lhs = V (Use oi t),
                  r_rel = GreaterEq, r_rhs = Mul (Const c) (V (IsUsed oi t))\<rparr> \<in> set rows2)"
      unfolding r2 by auto
  qed
  show "\<forall>t\<in>set T.
           \<lparr>r_name = ''LogicVeg1'', r_index = Ti t, r_lhs = V (IsUsed ''VEG1'' t),
            r_rel = LessEq, r_rhs = V (IsUsed ''OIL3'' t)\<rparr> \<in> set rows2
         \<and> \<lparr>r_name = ''LogicVeg2'', r_index = Ti t, r_lhs = V (IsUsed ''VEG2'' t),
            r_rel = LessEq, r_rhs = V (IsUsed ''OIL3'' t)\<rparr> \<in> set rows2
         \<and> (\<exists>y\<in>set rows2. r_name y = ''MaxIngredients'' \<and> r_index y = Ti t)"
  proof
    fix t
    assume t: "t \<in> set T"
    from Constraint_member [OF c(4) t]
    have "\<lparr>r_name = ''LogicVeg1'', r_index = Ti t, r_lhs = V (IsUsed ''VEG1'' t),
            r_rel = LessEq, r_rhs = V (IsUsed ''OIL3'' t)\<rparr> \<in> set V1"
      by (auto simp: logic_veg1_rule_Inr)
    moreover from Constraint_member [OF c(5) t]
    have "\<lparr>r_name = ''LogicVeg2'', r_index = Ti t, r_lhs = V (IsUsed ''VEG2'' t),
            r_rel = LessEq, r_rhs = V (IsUsed ''OIL3'' t)\<rparr> \<in> set V2"
      by (auto simp: logic_veg2_rule_Inr)
    moreover from Constraint_member [OF c(3) t]
    have "\<exists>y\<in>set X. r_name y = ''MaxIngredients'' \<and> r_index y = Ti t"
      by force
    ultimately show "\<lparr>r_name = ''LogicVeg1'', r_index = Ti t, r_lhs = V (IsUsed ''VEG1'' t),
            r_rel = LessEq, r_rhs = V (IsUsed ''OIL3'' t)\<rparr> \<in> set rows2
         \<and> \<lparr>r_name = ''LogicVeg2'', r_index = Ti t, r_lhs = V (IsUsed ''VEG2'' t),
            r_rel = LessEq, r_rhs = V (IsUsed ''OIL3'' t)\<rparr> \<in> set rows2
         \<and> (\<exists>y\<in>set rows2. r_name y = ''MaxIngredients'' \<and> r_index y = Ti t)"
      unfolding r2 by auto
  qed
qed

lemma build_modes_exact:
  assumes "build True oils prices ps = Inr md" and "build False oils prices ps = Inr mc"
  shows "m_vars md = m_vars mc
           @ map (\<lambda>(oi, t). \<lparr>v_var = IsUsed oi t, v_domain = Binary, v_bounds = None\<rparr>)
               (List.product (m_O md) (m_T md))"
    and "\<exists>extra. m_rows md = m_rows mc @ extra \<and> part2 ps (m_O md) (m_T md) = Inr extra
           \<and> part1 ps oils (m_O md) (m_T md) = Inr (m_rows mc)"
proof -
  note d = build_fields [OF assms(1)] and c = build_fields [OF assms(2)]
  have sets: "m_O md = m_O mc" "m_T md = m_T mc" by (simp_all add: d c)
  from d(5) c(5) show "m_vars md = m_vars mc
           @ map (\<lambda>(oi, t). \<lparr>v_var = IsUsed oi t, v_domain = Binary, v_bounds = None\<rparr>)
               (List.product (m_O md) (m_T md))"
    by (auto simp: sets declare_vars_mode)
  from d(6) c(6) show "\<exists>extra. m_rows md = m_rows mc @ extra
           \<and> part2 ps (m_O md) (m_T md) = Inr extra
           \<and> part1 ps oils (m_O md) (m_T md) = Inr (m_rows mc)"
    by (auto simp: sets)
qed

subsection \<open>The reference scenarios\<close>

lemmas build_defs = build_def part1_def part2_def Constraint_def andThen_def param_def
  balance_rule_def at_OT_def at_T_def set_first_def set_last_def final_stock_rule_def
  capacity_rule_def production_def_def total_hardness_def hardness_min_rule_def
  hardness_max_rule_def oils_loc_hardness_def py_sum_def objective_rule_def revenue_def
  purchase_cost_def storage_cost_def prices_loc_def link_rule_def min_usage_rule_def
  max_ingredients_rule_def logic_veg1_rule_def logic_veg2_rule_def Let_def

lemmas reference_defs = get_parameters_def load_oils_data_def load_market_prices_def
  price_columns_def

lemma reference_lp_builds:
  "build False load_oils_data load_market_prices get_parameters = Inr reference_lp"
proof -
  have "\<exists>m. build False load_oils_data load_market_prices get_parameters = Inr m"
    by (simp add: build_defs reference_defs)
  then show ?thesis by (auto simp: reference_lp_def)
qed

lemma reference_mip_builds:
  "build True load_oils_data load_market_prices get_parameters = Inr reference_mip"
proof -
  have "\<exists>m. build True load_oils_data load_market_prices get_parameters = Inr m"
    by (simp add: build_defs reference_defs)
  then show ?thesis by (auto simp: reference_mip_def)
qed

lemma reference_unique_labels: "unique_labels load_oils_data load_market_prices"
  by (simp add: unique_labels_def reference_defs)

lemma idle_feasible_lp: "feasible reference_lp idle"
  by (simp add: reference_lp_def feasible_def satisfies_def in_domain_def declare_vars_def
      build_defs reference_defs)

lemma idle_feasible_mip: "feasible reference_mip idle"
  by (simp add: reference_mip_def feasible_def satisfies_def in_domain_def declare_vars_def
      build_defs reference_defs)

lemma reference_lp_sets:
  "m_O reference_lp = [''VEG1'', ''VEG2'', ''OIL1'', ''OIL2'', ''OIL3'']"
  "m_T reference_lp = [1, 2, 3, 4, 5, 6]"
  using build_fields(1,2) [OF reference_lp_builds] by (simp_all add: reference_defs)

lemma reference_mip_sets:
  "m_O reference_mip = [''VEG1'', ''VEG2'', ''OIL1'', ''OIL2'', ''OIL3'']"
  "m_T reference_mip = [1, 2, 3, 4, 5, 6]"
  using build_fields(1,2) [OF reference_mip_builds] by (simp_all add: reference_defs)

lemma steady_feasible_lp: "feasible reference_lp steady"
  by (simp add: reference_lp_def feasible_def satisfies_def in_domain_def declare_vars_def
      build_defs reference_defs)

lemma steady_feasible_mip: "feasible reference_mip steady"
  by (simp add: reference_mip_def feasible_def satisfies_def in_domain_def declare_vars_def
      build_defs reference_defs big_m_def)

lemmas slump_defs = january_prices_def slump_parameters_def reference_defs

lemma slump_lp_builds:
  "build False load_oils_data january_prices slump_parameters = Inr slump_lp"
proof -
  have "\<exists>m. build False load_oils_data january_prices slump_parameters = Inr m"
    by (simp add: build_defs slump_defs)
  then show ?thesis by (auto simp: slump_lp_def)
qed

lemma slump_mip_builds:
  "build True load_oils_data january_prices slump_parameters = Inr slump_mip"
proof -
  have "\<exists>m. build True load_oils_data january_prices slump_parameters = Inr m"
    by (simp add: build_defs slump_defs)
  then show ?thesis by (auto simp: slump_mip_def)
qed

lemma slump_unique_labels: "unique_labels load_oils_data january_prices"
  by (simp add: unique_labels_def slump_defs)

lemma slump_lp_bound:
  assumes "feasible slump_lp b"
  shows "objective_value slump_lp b \<le> - 12500"
proof -
  from assms have
    "b (Stock ''VEG1'' 1) = 500 \<and> b (Stock ''VEG2'' 1) = 500 \<and> b (Stock ''OIL1'' 1) = 500
    \<and> b (Stock ''OIL2'' 1) = 500 \<and> b (Stock ''OIL3'' 1) = 500
    \<and> b (Stock ''VEG1'' 1) = 500 + b (Buy ''VEG1'' 1) - b (Use ''VEG1'' 1)
    \<and> b (Stock ''VEG2'' 1) = 500 + b (Buy ''VEG2'' 1) - b (Use ''VEG2'' 1)
    \<and> b (Stock ''OIL1'' 1) = 500 + b (Buy ''OIL1'' 1) - b (Use ''OIL1'' 1)
    \<and> b (Stock ''OIL2'' 1) = 500 + b (Buy ''OIL2'' 1) - b (Use ''OIL2'' 1)
    \<and> b (Stock ''OIL3'' 1) = 500 + b (Buy ''OIL3'' 1) - b (Use ''OIL3'' 1)
    \<and> 0 \<le> b (Buy ''VEG1'' 1) \<and> 0 \<le> b (Buy ''VEG2'' 1) \<and> 0 \<le> b (Buy ''OIL1'' 1)
    \<and> 0 \<le> b (Buy ''OIL2'' 1) \<and> 0 \<le> b (Buy ''OIL3'' 1)
    \<and> b (Produce 1) = 0 + b (Use ''VEG1'' 1) + b (Use ''VEG2'' 1) + b (Use ''OIL1'' 1)
       + b (Use ''OIL2'' 1) + b (Use ''OIL3'' 1)"
    by (simp add: slump_lp_def feasible_def satisfies_def in_domain_def declare_vars_def
        build_defs slump_defs)
  moreover have "objective_value slump_lp b =
      0 + b (Produce 1) * 100
      - (0 + b (Buy ''VEG1'' 1) * 110 + b (Buy ''VEG2'' 1) * 120 + b (Buy ''OIL1'' 1) * 130
           + b (Buy ''OIL2'' 1) * 110 + b (Buy ''OIL3'' 1) * 115)
      - (0 + b (Stock ''VEG1'' 1) * 5 + b (Stock ''VEG2'' 1) * 5 + b (Stock ''OIL1'' 1) * 5
           + b (Stock ''OIL2'' 1) * 5 + b (Stock ''OIL3'' 1) * 5)"
    by (simp add: slump_lp_def objective_value_def build_defs slump_defs)
  ultimately show ?thesis by linarith
qed

lemma idle_slump_lp: "feasible slump_lp idle" "objective_value slump_lp idle = - 12500"
  by (simp_all add: slump_lp_def feasible_def satisfies_def in_domain_def declare_vars_def
      objective_value_def build_defs slump_defs)

lemma idle_slump_mip: "feasible slump_mip idle"
  by (simp add: slump_mip_def feasible_def satisfies_def in_domain_def declare_vars_def
      build_defs slump_defs)

lemma idle_optimal_slump_lp: "optimal slump_lp idle"
  using idle_slump_lp slump_lp_bound by (simp add: optimal_def)

lemma idle_optimal_slump_mip: "optimal slump_mip idle"
proof -
  have "objective_value slump_mip b \<le> objective_value slump_mip idle"
    if "feasible slump_mip b" for b
  proof -
    from slump_mip_builds slump_lp_builds that have "feasible slump_lp b"
      by (rule discrete_feasible_continuous)
    then have "objective_value slump_lp b \<le> objective_value slump_lp idle"
      using slump_lp_bound idle_slump_lp(2) by simp
    then show ?thesis
      by (simp add: objective_value_def build_modes(5) [OF slump_mip_builds slump_lp_builds])
  qed
  with idle_slump_mip show ?thesis by (simp add: optimal_def)
qed

lemma lp_wrapper_fields:
  "self_model lp_wrapper = Some reference_lp" "self_result_data lp_wrapper = []"
  "self_oils lp_wrapper = load_oils_data" "self_prices lp_wrapper = load_market_prices"
  "self_params lp_wrapper = get_parameters"
  by (simp_all add: lp_wrapper_def build_method_def init_def reference_lp_builds)

lemma reference_well_formed: "well_formed True load_oils_data load_market_prices get_parameters"
  by (simp add: well_formed_def unique_labels_def required_keys_def reference_defs)

lemmas wide_defs = wide_parameters_def reference_defs

lemma wide_lp_builds:
  "build False load_oils_data load_market_prices wide_parameters = Inr wide_lp"
proof -
  have "\<exists>m. build False load_oils_data load_market_prices wide_parameters = Inr m"
    by (simp add: build_defs wide_defs)
  then show ?thesis by (auto simp: wide_lp_def)
qed

lemma wide_mip_builds:
  "build True load_oils_data load_market_prices wide_parameters = Inr wide_mip"
proof -
  have "\<exists>m. build True load_oils_data load_market_prices wide_parameters = Inr m"
    by (simp add: build_defs wide_defs)
  then show ?thesis by (auto simp: wide_mip_def)
qed

lemma heavy_feasible_lp: "feasible wide_lp heavy"
  by (simp add: wide_lp_def feasible_def satisfies_def in_domain_def declare_vars_def
      build_defs wide_defs)

lemma wide_link_row:
  "\<lparr>r_name = ''LinkVars'', r_index = OT ''OIL3'' 1, r_lhs = V (Use ''OIL3'' 1), r_rel = LessEq,
    r_rhs = Mul (Const big_m) (V (IsUsed ''OIL3'' 1))\<rparr> \<in> set (m_rows wide_mip)"
proof -
  from build_modes_exact(2) [OF wide_mip_builds wide_lp_builds] obtain extra where
    rows: "m_rows wide_mip = m_rows wide_lp @ extra"
    and p2: "part2 wide_parameters (m_O wide_mip) (m_T wide_mip) = Inr extra"
    by blast
  have "''OIL3'' \<in> set (m_O wide_mip)" "1 \<in> set (m_T wide_mip)"
    using build_fields(1,2) [OF wide_mip_builds] by (simp_all add: reference_defs)
  with part2_members(1) [OF p2] rows show ?thesis by simp
qed

section \<open>The claims\<close>

subsection \<open>C1: inventory balance and final stock\<close>

text \<open>
  C1. In either mode, a built model has, for every oil \<open>oi\<close> and period \<open>t\<close>, the
  equality row \<open>Stock[oi,t] = PrevStock + Buy[oi,t] - Use[oi,t]\<close>, where \<open>PrevStock\<close> is
  the parameter \<open>initial_stock\<close> when \<open>t\<close> is the first period and \<open>Stock[oi,t-1]\<close>
  otherwise, and for every oil the equality row \<open>Stock[oi, last period] = target_final_stock\<close>.
  Hence every feasible assignment satisfies the balance at \<open>t\<close>, the boundary condition of
  the first period and the one of the last period exactly.
\<close>

theorem balance_and_final_stock:
  assumes "build flag oils prices ps = Inr m"
    and "unique_labels oils prices"
    and "oi \<in> set (m_O m)" and "t \<in> set (m_T m)"
  shows "\<exists>init target prev.
      ps ''initial_stock'' = Some init \<and> ps ''target_final_stock'' = Some target
    \<and> prev = (if t = hd (m_T m) then Const init else V (Stock oi (t - 1)))
    \<and> \<lparr>r_name = ''Balance'', r_index = OT oi t, r_lhs = V (Stock oi t), r_rel = Equal,
        r_rhs = Sub (Add prev (V (Buy oi t))) (V (Use oi t))\<rparr> \<in> set (m_rows m)
    \<and> \<lparr>r_name = ''FinalStock'', r_index = Oi oi, r_lhs = V (Stock oi (last (m_T m))),
        r_rel = Equal, r_rhs = Const target\<rparr> \<in> set (m_rows m)
    \<and> (\<forall>a. feasible m a \<longrightarrow>
          a (Stock oi t) = eval a prev + a (Buy oi t) - a (Use oi t)
        \<and> a (Stock oi (hd (m_T m))) = init + a (Buy oi (hd (m_T m))) - a (Use oi (hd (m_T m)))
        \<and> a (Stock oi (last (m_T m))) = target)"
proof -
  let ?T = "m_T m" and ?O = "m_O m"
  from build_fields(6) [OF assms(1)] obtain rows1 rows2
    where p1: "part1 ps oils ?O ?T = Inr rows1" and rows: "m_rows m = rows1 @ rows2"
    by blast
  from part1_Inr [OF p1] obtain Balance FinalStock rest where
    B: "Constraint ''Balance'' (\<lambda>(oi, t). OT oi t) (List.product ?O ?T) (balance_rule ps ?O ?T) = Inr Balance"
    and F: "Constraint ''FinalStock'' Oi ?O (final_stock_rule ps ?O ?T) = Inr FinalStock"
    and rows1: "rows1 = Balance @ FinalStock @ rest"
    by blast
  have sub: "set Balance \<subseteq> set (m_rows m)" "set FinalStock \<subseteq> set (m_rows m)"
    by (auto simp: rows rows1)
  from assms(4) have ne: "?T \<noteq> []" by auto
  then have first: "hd ?T \<in> set ?T" by simp
  \<comment> \<open>the row of the first period\<close>
  from Constraint_member [OF B, of "(oi, hd ?T)"] assms(3) first
  obtain l1 r1 rhs1 where
    b1: "balance_rule ps ?O ?T (oi, hd ?T) = Inr (Relational l1 r1 rhs1)"
    and m1: "\<lparr>r_name = ''Balance'', r_index = OT oi (hd ?T), r_lhs = l1, r_rel = r1, r_rhs = rhs1\<rparr>
              \<in> set Balance"
    by auto
  from balance_rule_Inr [OF b1] obtain init where init: "ps ''initial_stock'' = Some init"
    and row1: "l1 = V (Stock oi (hd ?T))" "r1 = Equal"
      "rhs1 = Sub (Add (Const init) (V (Buy oi (hd ?T)))) (V (Use oi (hd ?T)))"
    by auto
  \<comment> \<open>the row of period \<open>t\<close>\<close>
  from Constraint_member [OF B, of "(oi, t)"] assms(3,4)
  obtain l r rhs where
    b: "balance_rule ps ?O ?T (oi, t) = Inr (Relational l r rhs)"
    and mt: "\<lparr>r_name = ''Balance'', r_index = OT oi t, r_lhs = l, r_rel = r, r_rhs = rhs\<rparr>
              \<in> set Balance"
    by auto
  define prev where "prev = (if t = hd ?T then Const init else V (Stock oi (t - 1)))"
  from balance_rule_Inr [OF b] init
  have rowt: "l = V (Stock oi t)" "r = Equal" "rhs = Sub (Add prev (V (Buy oi t))) (V (Use oi t))"
    by (auto simp: prev_def split: if_splits)
  \<comment> \<open>the row of the final stock\<close>
  from Constraint_member [OF F assms(3)]
  obtain lf rf rhsf where
    f: "final_stock_rule ps ?O ?T oi = Inr (Relational lf rf rhsf)"
    and mf: "\<lparr>r_name = ''FinalStock'', r_index = Oi oi, r_lhs = lf, r_rel = rf, r_rhs = rhsf\<rparr>
              \<in> set FinalStock"
    by auto
  from final_stock_rule_Inr [OF f] obtain target where target: "ps ''target_final_stock'' = Some target"
    and rowf: "lf = V (Stock oi (last ?T))" "rf = Equal" "rhsf = Const target"
    by auto
  have in1: "\<lparr>r_name = ''Balance'', r_index = OT oi (hd ?T), r_lhs = V (Stock oi (hd ?T)),
               r_rel = Equal,
               r_rhs = Sub (Add (Const init) (V (Buy oi (hd ?T)))) (V (Use oi (hd ?T)))\<rparr>
             \<in> set (m_rows m)"
    using m1 sub(1) by (auto simp: row1)
  have int: "\<lparr>r_name = ''Balance'', r_index = OT oi t, r_lhs = V (Stock oi t), r_rel = Equal,
        r_rhs = Sub (Add prev (V (Buy oi t))) (V (Use oi t))\<rparr> \<in> set (m_rows m)"
    using mt sub(1) by (auto simp: rowt)
  have inf: "\<lparr>r_name = ''FinalStock'', r_index = Oi oi, r_lhs = V (Stock oi (last ?T)),
        r_rel = Equal, r_rhs = Const target\<rparr> \<in> set (m_rows m)"
    using mf sub(2) by (auto simp: rowf)
  have sem: "a (Stock oi t) = eval a prev + a (Buy oi t) - a (Use oi t)
        \<and> a (Stock oi (hd ?T)) = init + a (Buy oi (hd ?T)) - a (Use oi (hd ?T))
        \<and> a (Stock oi (last ?T)) = target" if "feasible m a" for a
    using feasible_row [OF that in1] feasible_row [OF that int] feasible_row [OF that inf]
    by (simp add: satisfies_def)
  from init target int inf sem show ?thesis
    unfolding prev_def by blast
qed

theorem balance_and_final_stock_witness:
  "build False load_oils_data load_market_prices get_parameters = Inr reference_lp
   \<and> unique_labels load_oils_data load_market_prices
   \<and> ''VEG1'' \<in> set (m_O reference_lp) \<and> 2 \<in> set (m_T reference_lp)
   \<and> \<lparr>r_name = ''Balance'', r_index = OT ''VEG1'' 2, r_lhs = V (Stock ''VEG1'' 2),
       r_rel = Equal,
       r_rhs = Sub (Add (V (Stock ''VEG1'' 1)) (V (Buy ''VEG1'' 2))) (V (Use ''VEG1'' 2))\<rparr>
       \<in> set (m_rows reference_lp)
   \<and> \<lparr>r_name = ''FinalStock'', r_index = Oi ''VEG1'', r_lhs = V (Stock ''VEG1'' 6),
       r_rel = Equal, r_rhs = Const 500\<rparr> \<in> set (m_rows reference_lp)
   \<and> feasible reference_lp idle
   \<and> idle (Stock ''VEG1'' 1) = 500 + idle (Buy ''VEG1'' 1) - idle (Use ''VEG1'' 1)
   \<and> idle (Stock ''VEG1'' 6) = 500"
proof -
  have oi: "''VEG1'' \<in> set (m_O reference_lp)" and t: "2 \<in> set (m_T reference_lp)"
    by (simp_all add: reference_lp_sets)
  from balance_and_final_stock [OF reference_lp_builds reference_unique_labels oi t]
  obtain init target prev where
    init: "get_parameters ''initial_stock'' = Some init"
    and target: "get_parameters ''target_final_stock'' = Some target"
    and prev: "prev = (if 2 = hd (m_T reference_lp) then Const init else V (Stock ''VEG1'' (2 - 1)))"
    and balance: "\<lparr>r_name = ''Balance'', r_index = OT ''VEG1'' 2, r_lhs = V (Stock ''VEG1'' 2),
        r_rel = Equal, r_rhs = Sub (Add prev (V (Buy ''VEG1'' 2))) (V (Use ''VEG1'' 2))\<rparr>
        \<in> set (m_rows reference_lp)"
    and final: "\<lparr>r_name = ''FinalStock'', r_index = Oi ''VEG1'',
        r_lhs = V (Stock ''VEG1'' (last (m_T reference_lp))),
        r_rel = Equal, r_rhs = Const target\<rparr> \<in> set (m_rows reference_lp)"
    and sem: "\<forall>a. feasible reference_lp a \<longrightarrow>
          a (Stock ''VEG1'' 2) = eval a prev + a (Buy ''VEG1'' 2) - a (Use ''VEG1'' 2)
        \<and> a (Stock ''VEG1'' (hd (m_T reference_lp)))
            = init + a (Buy ''VEG1'' (hd (m_T reference_lp))) - a (Use ''VEG1'' (hd (m_T reference_lp)))
        \<and> a (Stock ''VEG1'' (last (m_T reference_lp))) = target"
    by blast
  from init have init500: "init = 500" by (simp add: get_parameters_def)
  from target have target500: "target = 500" by (simp add: get_parameters_def)
  from prev have prev1: "prev = V (Stock ''VEG1'' 1)" by (simp add: reference_lp_sets)
  from sem idle_feasible_lp
  have "idle (Stock ''VEG1'' (hd (m_T reference_lp)))
            = init + idle (Buy ''VEG1'' (hd (m_T reference_lp))) - idle (Use ''VEG1'' (hd (m_T reference_lp)))"
    and "idle (Stock ''VEG1'' (last (m_T reference_lp))) = target"
    by blast+
  then have "idle (Stock ''VEG1'' 1) = 500 + idle (Buy ''VEG1'' 1) - idle (Use ''VEG1'' 1)"
    and "idle (Stock ''VEG1'' 6) = 500"
    unfolding init500 target500 reference_lp_sets by simp_all
  moreover from balance have "\<lparr>r_name = ''Balance'', r_index = OT ''VEG1'' 2, r_lhs = V (Stock ''VEG1'' 2),
       r_rel = Equal,
       r_rhs = Sub (Add (V (Stock ''VEG1'' 1)) (V (Buy ''VEG1'' 2))) (V (Use ''VEG1'' 2))\<rparr>
       \<in> set (m_rows reference_lp)"
    unfolding prev1 .
  moreover from final have "\<lparr>r_name = ''FinalStock'', r_index = Oi ''VEG1'', r_lhs = V (Stock ''VEG1'' 6),
       r_rel = Equal, r_rhs = Const 500\<rparr> \<in> set (m_rows reference_lp)"
    unfolding target500 reference_lp_sets by simp
  ultimately show ?thesis
    using reference_lp_builds reference_unique_labels idle_feasible_lp oi t by blast
qed

subsection \<open>C4: the objective\<close>

text \<open>
  C4. In either mode, the single objective of a built model is maximised and its value
  under any assignment is the revenue (sum over periods of \<open>Produce[t]\<close> times the sales
  price) minus the purchase cost (sum over oils and periods of \<open>Buy[oi,t]\<close> times the price
  of the oil in the period) minus the storage cost (sum over oils and periods of
  \<open>Stock[oi,t]\<close> times the storage cost per ton), and nothing else; the objective
  expression of the other mode is the same.
\<close>

theorem objective_is_profit:
  assumes "build flag oils prices ps = Inr m"
    and "unique_labels oils prices"
  shows "m_sense m = maximize
    \<and> (\<exists>sale cost.
         (m_T m \<noteq> [] \<longrightarrow> ps ''product_sales_price'' = Some sale)
       \<and> (m_T m \<noteq> [] \<and> m_O m \<noteq> [] \<longrightarrow> ps ''storage_cost_per_ton'' = Some cost)
       \<and> (\<forall>a. objective_value m a =
              (\<Sum>t\<leftarrow>m_T m. a (Produce t) * sale)
            - (\<Sum>(oi, t)\<leftarrow>List.product (m_O m) (m_T m). a (Buy oi t) * p_cell prices t oi)
            - (\<Sum>(oi, t)\<leftarrow>List.product (m_O m) (m_T m). a (Stock oi t) * cost)))
    \<and> (\<forall>m'. build (\<not> flag) oils prices ps = Inr m' \<longrightarrow> m_objective m' = m_objective m)"
proof -
  let ?T = "m_T m" and ?O = "m_O m"
  note f = build_fields [OF assms(1)]
  from f(4) obtain rev purchase storage where
    rev: "revenue ps ?T = Inr rev"
    and purchase: "purchase_cost prices ?O ?T = Inr purchase"
    and storage: "storage_cost ps ?O ?T = Inr storage"
    and obj: "m_objective m = py_sub (py_sub rev purchase) storage"
    by (auto simp: objective_rule_def andThen_Inr)
  from revenue_Inr [OF rev] obtain sale where
    sale: "?T \<noteq> [] \<longrightarrow> ps ''product_sales_price'' = Some sale"
    and ev_rev: "\<And>a. eval a rev = (\<Sum>t\<leftarrow>?T. a (Produce t) * sale)"
    by blast
  from storage_cost_Inr [OF storage] obtain cost where
    cost: "List.product ?O ?T \<noteq> [] \<longrightarrow> ps ''storage_cost_per_ton'' = Some cost"
    and ev_storage: "\<And>a. eval a storage = (\<Sum>(oi, t)\<leftarrow>List.product ?O ?T. a (Stock oi t) * cost)"
    by blast
  have ne: "List.product ?O ?T \<noteq> []" if "?T \<noteq> []" "?O \<noteq> []"
    using that by (cases ?O; cases ?T) simp_all
  have val: "objective_value m a =
              (\<Sum>t\<leftarrow>?T. a (Produce t) * sale)
            - (\<Sum>(oi, t)\<leftarrow>List.product ?O ?T. a (Buy oi t) * p_cell prices t oi)
            - (\<Sum>(oi, t)\<leftarrow>List.product ?O ?T. a (Stock oi t) * cost)" for a
    by (simp add: objective_value_def obj eval_py_sub ev_rev ev_storage
        purchase_cost_Inr [OF purchase])
  have other: "m_objective m' = m_objective m" if "build (\<not> flag) oils prices ps = Inr m'" for m'
    using build_fields(1,2,4) [OF that] f(1,2,4) by simp
  from f(3) sale cost ne val other show ?thesis by blast
qed

theorem objective_is_profit_witness:
  "build False load_oils_data load_market_prices get_parameters = Inr reference_lp
   \<and> unique_labels load_oils_data load_market_prices
   \<and> m_sense reference_lp = maximize
   \<and> objective_value reference_lp idle = - 75000
   \<and> m_objective reference_mip = m_objective reference_lp"
proof -
  from objective_is_profit [OF reference_lp_builds reference_unique_labels]
  obtain sale cost where
    sense: "m_sense reference_lp = maximize"
    and sale: "m_T reference_lp \<noteq> [] \<longrightarrow> get_parameters ''product_sales_price'' = Some sale"
    and cost: "m_T reference_lp \<noteq> [] \<and> m_O reference_lp \<noteq> []
                \<longrightarrow> get_parameters ''storage_cost_per_ton'' = Some cost"
    and val: "\<forall>a. objective_value reference_lp a =
              (\<Sum>t\<leftarrow>m_T reference_lp. a (Produce t) * sale)
            - (\<Sum>(oi, t)\<leftarrow>List.product (m_O reference_lp) (m_T reference_lp).
                 a (Buy oi t) * p_cell load_market_prices t oi)
            - (\<Sum>(oi, t)\<leftarrow>List.product (m_O reference_lp) (m_T reference_lp).
                 a (Stock oi t) * cost)"
    and other: "\<forall>m'. build (\<not> False) load_oils_data load_market_prices get_parameters = Inr m'
                 \<longrightarrow> m_objective m' = m_objective reference_lp"
    by blast
  from cost have "cost = 5" by (simp add: reference_lp_sets get_parameters_def)
  with val have "objective_value reference_lp idle = - 75000"
    by (simp add: reference_lp_sets)
  moreover from other reference_mip_builds
  have "m_objective reference_mip = m_objective reference_lp" by simp
  ultimately show ?thesis
    using reference_lp_builds reference_unique_labels sense by blast
qed

subsection \<open>C2: blend hardness\<close>

text \<open>
  C2. In either mode, a built model has for every period \<open>t\<close> the two rows
  \<open>sum of hardness[oi] * Use[oi,t] >= min_hardness * Produce[t]\<close> and
  \<open>sum of hardness[oi] * Use[oi,t] <= max_hardness * Produce[t]\<close>. In every feasible
  assignment: when \<open>Produce[t] > 0\<close> the weighted average hardness lies between the two
  bounds; when \<open>Produce[t] = 0\<close> every \<open>Use[oi,t]\<close> is 0 (production definition and
  non-negativity), so both rows read \<open>0 <= 0\<close>.
\<close>

theorem hardness_bounds:
  assumes "build flag oils prices ps = Inr m"
    and "unique_labels oils prices"
    and "t \<in> set (m_T m)"
  shows "\<exists>hmin hmax lo hi.
      ps ''min_hardness'' = Some hmin \<and> ps ''max_hardness'' = Some hmax
    \<and> lo \<in> set (m_rows m) \<and> r_name lo = ''HardnessMin'' \<and> r_index lo = Ti t
    \<and> r_rel lo = GreaterEq \<and> r_rhs lo = Mul (Const hmin) (V (Produce t))
    \<and> (\<forall>a. eval a (r_lhs lo) = (\<Sum>r\<leftarrow>oils. hardness r * a (Use (oil_id r) t)))
    \<and> hi \<in> set (m_rows m) \<and> r_name hi = ''HardnessMax'' \<and> r_index hi = Ti t
    \<and> r_rel hi = LessEq \<and> r_rhs hi = Mul (Const hmax) (V (Produce t))
    \<and> (\<forall>a. eval a (r_lhs hi) = (\<Sum>r\<leftarrow>oils. hardness r * a (Use (oil_id r) t)))
    \<and> (\<forall>a. feasible m a \<longrightarrow>
          hmin * a (Produce t) \<le> (\<Sum>r\<leftarrow>oils. hardness r * a (Use (oil_id r) t))
        \<and> (\<Sum>r\<leftarrow>oils. hardness r * a (Use (oil_id r) t)) \<le> hmax * a (Produce t)
        \<and> (0 < a (Produce t) \<longrightarrow>
              hmin \<le> (\<Sum>r\<leftarrow>oils. hardness r * a (Use (oil_id r) t)) / a (Produce t)
            \<and> (\<Sum>r\<leftarrow>oils. hardness r * a (Use (oil_id r) t)) / a (Produce t) \<le> hmax)
        \<and> (a (Produce t) = 0 \<longrightarrow>
              (\<forall>r\<in>set oils. a (Use (oil_id r) t) = 0)
            \<and> (\<Sum>r\<leftarrow>oils. hardness r * a (Use (oil_id r) t)) = 0
            \<and> hmin * a (Produce t) = 0 \<and> hmax * a (Produce t) = 0))"
proof -
  let ?T = "m_T m" and ?O = "m_O m"
  let ?H = "\<lambda>a. (\<Sum>r\<leftarrow>oils. hardness r * a (Use (oil_id r) t))"
  note f = build_fields [OF assms(1)]
  from assms(2) have dist: "distinct (map oil_id oils)" by (simp add: unique_labels_def)
  from assms(1) obtain HMin HMax where
    cmin: "Constraint ''HardnessMin'' Ti ?T (hardness_min_rule ps oils ?O ?T) = Inr HMin"
    and cmax: "Constraint ''HardnessMax'' Ti ?T (hardness_max_rule ps oils ?O ?T) = Inr HMax"
    and sub: "set HMin \<subseteq> set (m_rows m)" "set HMax \<subseteq> set (m_rows m)"
    by (rule part1_rows)
  from Constraint_member [OF cmin assms(3)] obtain l1 r1 rhs1 where
    rule1: "hardness_min_rule ps oils ?O ?T t = Inr (Relational l1 r1 rhs1)"
    and mem1: "\<lparr>r_name = ''HardnessMin'', r_index = Ti t, r_lhs = l1, r_rel = r1, r_rhs = rhs1\<rparr>
               \<in> set HMin"
    by blast
  from hardness_min_rule_Inr [OF rule1] obtain hmin where
    hmin: "ps ''min_hardness'' = Some hmin"
    and tot1: "total_hardness oils ?O ?T t = Inr l1"
    and row1: "r1 = GreaterEq" "rhs1 = Mul (Const hmin) (V (Produce t))"
    by auto
  from Constraint_member [OF cmax assms(3)] obtain l2 r2 rhs2 where
    rule2: "hardness_max_rule ps oils ?O ?T t = Inr (Relational l2 r2 rhs2)"
    and mem2: "\<lparr>r_name = ''HardnessMax'', r_index = Ti t, r_lhs = l2, r_rel = r2, r_rhs = rhs2\<rparr>
               \<in> set HMax"
    by blast
  from hardness_max_rule_Inr [OF rule2] obtain hmax where
    hmax: "ps ''max_hardness'' = Some hmax"
    and tot2: "total_hardness oils ?O ?T t = Inr l2"
    and row2: "r2 = LessEq" "rhs2 = Mul (Const hmax) (V (Produce t))"
    by auto
  define lo where
    "lo = \<lparr>r_name = ''HardnessMin'', r_index = Ti t, r_lhs = l1, r_rel = r1, r_rhs = rhs1\<rparr>"
  define hi where
    "hi = \<lparr>r_name = ''HardnessMax'', r_index = Ti t, r_lhs = l2, r_rel = r2, r_rhs = rhs2\<rparr>"
  have ev1: "eval a l1 = ?H a" for a
    using total_hardness_Inr [OF tot1 [unfolded f(1)] dist] .
  have ev2: "eval a l2 = ?H a" for a
    using total_hardness_Inr [OF tot2 [unfolded f(1)] dist] .
  have lo: "lo \<in> set (m_rows m)" "r_name lo = ''HardnessMin''" "r_index lo = Ti t"
    "r_rel lo = GreaterEq" "r_rhs lo = Mul (Const hmin) (V (Produce t))"
    "\<forall>a. eval a (r_lhs lo) = ?H a"
    using mem1 sub(1) by (auto simp: lo_def row1 ev1)
  have hi: "hi \<in> set (m_rows m)" "r_name hi = ''HardnessMax''" "r_index hi = Ti t"
    "r_rel hi = LessEq" "r_rhs hi = Mul (Const hmax) (V (Produce t))"
    "\<forall>a. eval a (r_lhs hi) = ?H a"
    using mem2 sub(2) by (auto simp: hi_def row2 ev2)
  have sem: "hmin * a (Produce t) \<le> ?H a \<and> ?H a \<le> hmax * a (Produce t)
        \<and> (0 < a (Produce t) \<longrightarrow> hmin \<le> ?H a / a (Produce t) \<and> ?H a / a (Produce t) \<le> hmax)
        \<and> (a (Produce t) = 0 \<longrightarrow>
              (\<forall>r\<in>set oils. a (Use (oil_id r) t) = 0) \<and> ?H a = 0
            \<and> hmin * a (Produce t) = 0 \<and> hmax * a (Produce t) = 0)"
    if feas: "feasible m a" for a
  proof -
    from feasible_row [OF feas lo(1)] have b1: "hmin * a (Produce t) \<le> ?H a"
      by (simp add: satisfies_def lo(4,5) lo(6) [rule_format])
    from feasible_row [OF feas hi(1)] have b2: "?H a \<le> hmax * a (Produce t)"
      by (simp add: satisfies_def hi(4,5) hi(6) [rule_format])
    have ratio: "hmin \<le> ?H a / a (Produce t) \<and> ?H a / a (Produce t) \<le> hmax"
      if "0 < a (Produce t)"
      using b1 b2 that by (simp add: pos_le_divide_eq pos_divide_le_eq)
    have zero: "(\<forall>r\<in>set oils. a (Use (oil_id r) t) = 0) \<and> ?H a = 0"
      if p0: "a (Produce t) = 0"
    proof -
      from production_row [OF assms(1,3) feas] p0
      have s0: "(\<Sum>r\<leftarrow>oils. a (Use (oil_id r) t)) = 0"
        by (simp add: f(1) comp_def)
      have nn: "0 \<le> a (Use (oil_id r) t)" if "r \<in> set oils" for r
        using feasible_Use_nonneg [OF assms(1) feas _ assms(3), of "oil_id r"] that
        by (simp add: f(1))
      have u0: "\<forall>r\<in>set oils. a (Use (oil_id r) t) = 0"
        using sum_list_nonneg_zero [OF s0 nn] by blast
      then have "?H a = 0" by (intro sum_list_all_zero) simp
      with u0 show ?thesis by blast
    qed
    from b1 b2 ratio zero show ?thesis by simp
  qed
  from hmin hmax lo hi sem show ?thesis by blast
qed

theorem hardness_bounds_witness:
  "build False load_oils_data load_market_prices get_parameters = Inr reference_lp
   \<and> unique_labels load_oils_data load_market_prices
   \<and> 1 \<in> set (m_T reference_lp)
   \<and> feasible reference_lp steady \<and> 0 < steady (Produce 1)
   \<and> 3 \<le> (\<Sum>r\<leftarrow>load_oils_data. hardness r * steady (Use (oil_id r) 1)) / steady (Produce 1)
   \<and> (\<Sum>r\<leftarrow>load_oils_data. hardness r * steady (Use (oil_id r) 1)) / steady (Produce 1) \<le> 6
   \<and> feasible reference_lp idle \<and> idle (Produce 1) = 0
   \<and> (\<Sum>r\<leftarrow>load_oils_data. hardness r * idle (Use (oil_id r) 1)) = 0"
proof -
  have t: "1 \<in> set (m_T reference_lp)" by (simp add: reference_lp_sets)
  from hardness_bounds [OF reference_lp_builds reference_unique_labels t]
  obtain hmin hmax where
    hmin: "get_parameters ''min_hardness'' = Some hmin"
    and hmax: "get_parameters ''max_hardness'' = Some hmax"
    and sem: "\<forall>a. feasible reference_lp a \<longrightarrow>
          hmin * a (Produce 1) \<le> (\<Sum>r\<leftarrow>load_oils_data. hardness r * a (Use (oil_id r) 1))
        \<and> (\<Sum>r\<leftarrow>load_oils_data. hardness r * a (Use (oil_id r) 1)) \<le> hmax * a (Produce 1)
        \<and> (0 < a (Produce 1) \<longrightarrow>
              hmin \<le> (\<Sum>r\<leftarrow>load_oils_data. hardness r * a (Use (oil_id r) 1)) / a (Produce 1)
            \<and> (\<Sum>r\<leftarrow>load_oils_data. hardness r * a (Use (oil_id r) 1)) / a (Produce 1) \<le> hmax)
        \<and> (a (Produce 1) = 0 \<longrightarrow>
              (\<forall>r\<in>set load_oils_data. a (Use (oil_id r) 1) = 0)
            \<and> (\<Sum>r\<leftarrow>load_oils_data. hardness r * a (Use (oil_id r) 1)) = 0
            \<and> hmin * a (Produce 1) = 0 \<and> hmax * a (Produce 1) = 0)"
    by blast
  from hmin hmax have h: "hmin = 3" "hmax = 6" by (simp_all add: get_parameters_def)
  have p: "0 < steady (Produce 1)" and p0: "idle (Produce 1) = 0" by simp_all
  from sem steady_feasible_lp p
  have "hmin \<le> (\<Sum>r\<leftarrow>load_oils_data. hardness r * steady (Use (oil_id r) 1)) / steady (Produce 1)"
    and "(\<Sum>r\<leftarrow>load_oils_data. hardness r * steady (Use (oil_id r) 1)) / steady (Produce 1) \<le> hmax"
    by blast+
  moreover from sem idle_feasible_lp p0
  have "(\<Sum>r\<leftarrow>load_oils_data. hardness r * idle (Use (oil_id r) 1)) = 0"
    by blast
  ultimately show ?thesis
    using reference_lp_builds reference_unique_labels t steady_feasible_lp idle_feasible_lp p p0
    unfolding h by blast
qed

subsection \<open>C3: linking of \<open>Use\<close> and \<open>IsUsed\<close>\<close>

text \<open>
  What the linking rows guarantee. In discrete mode, for every oil and period the model
  has the rows \<open>Use[oi,t] <= big_m * IsUsed[oi,t]\<close> and
  \<open>Use[oi,t] >= min_usage_if_used * IsUsed[oi,t]\<close>, and every feasible assignment
  satisfies: \<open>IsUsed[oi,t] = 0\<close> implies \<open>Use[oi,t] = 0\<close>, and \<open>IsUsed[oi,t] = 1\<close> implies
  \<open>Use[oi,t] >= min_usage_if_used\<close>. When \<open>big_m\<close> is at least the refining cap of the
  oil's category, every feasible \<open>Use[oi,t]\<close> of the continuous model is at most \<open>big_m\<close>.
\<close>

theorem discrete_linking:
  assumes "build True oils prices ps = Inr m"
    and "unique_labels oils prices"
    and "x \<in> set oils" and "t \<in> set (m_T m)"
  shows "\<exists>minuse link.
      ps ''min_usage_if_used'' = Some minuse
    \<and> link = \<lparr>r_name = ''LinkVars'', r_index = OT (oil_id x) t, r_lhs = V (Use (oil_id x) t),
               r_rel = LessEq, r_rhs = Mul (Const big_m) (V (IsUsed (oil_id x) t))\<rparr>
    \<and> link \<in> set (m_rows m)
    \<and> \<lparr>r_name = ''MinThreshold'', r_index = OT (oil_id x) t, r_lhs = V (Use (oil_id x) t),
        r_rel = GreaterEq, r_rhs = Mul (Const minuse) (V (IsUsed (oil_id x) t))\<rparr> \<in> set (m_rows m)
    \<and> (\<forall>a. feasible m a \<longrightarrow>
          (a (IsUsed (oil_id x) t) = 0 \<longrightarrow> a (Use (oil_id x) t) = 0)
        \<and> (a (IsUsed (oil_id x) t) = 1 \<longrightarrow> minuse \<le> a (Use (oil_id x) t))
        \<and> (0 < a (Use (oil_id x) t) \<longrightarrow> a (IsUsed (oil_id x) t) = 1))
    \<and> (\<forall>mc cv cn a.
          build False oils prices ps = Inr mc \<and> feasible mc a
        \<and> ps ''max_veg_refine_per_month'' = Some cv
        \<and> ps ''max_nonveg_refine_per_month'' = Some cn
        \<and> (oil_type x = ''Veg'' \<and> cv \<le> big_m \<or> oil_type x = ''NonVeg'' \<and> cn \<le> big_m)
        \<longrightarrow> a (Use (oil_id x) t) \<le> big_m \<and> satisfies (a(IsUsed (oil_id x) t := 1)) link)"
proof -
  let ?oi = "oil_id x"
  note f = build_fields [OF assms(1)]
  from assms(3) have oi: "?oi \<in> set (m_O m)" by (simp add: f(1))
  with assms(4) have idx: "(?oi, t) \<in> set (List.product (m_O m) (m_T m))" by simp
  from assms(1) obtain LinkVars MinThreshold where
    cl: "Constraint ''LinkVars'' (\<lambda>(oi, t). OT oi t) (List.product (m_O m) (m_T m))
       (link_rule (m_O m) (m_T m)) = Inr LinkVars"
    and cm: "Constraint ''MinThreshold'' (\<lambda>(oi, t). OT oi t) (List.product (m_O m) (m_T m))
       (min_usage_rule ps (m_O m) (m_T m)) = Inr MinThreshold"
    and sub: "set LinkVars \<subseteq> set (m_rows m)" "set MinThreshold \<subseteq> set (m_rows m)"
    by (rule part2_rows)
  define link where "link = \<lparr>r_name = ''LinkVars'', r_index = OT ?oi t, r_lhs = V (Use ?oi t),
               r_rel = LessEq, r_rhs = Mul (Const big_m) (V (IsUsed ?oi t))\<rparr>"
  from Constraint_member [OF cl idx] obtain l1 r1 rhs1 where
    "link_rule (m_O m) (m_T m) (?oi, t) = Inr (Relational l1 r1 rhs1)"
    and "\<lparr>r_name = ''LinkVars'', r_index = OT ?oi t, r_lhs = l1, r_rel = r1, r_rhs = rhs1\<rparr>
          \<in> set LinkVars"
    by auto
  with link_rule_Inr [of "m_O m" "m_T m" ?oi t] sub(1)
  have link_in: "link \<in> set (m_rows m)"
    by (auto simp: link_def)
  from Constraint_member [OF cm idx] obtain l2 r2 rhs2 where
    rule2: "min_usage_rule ps (m_O m) (m_T m) (?oi, t) = Inr (Relational l2 r2 rhs2)"
    and mem2: "\<lparr>r_name = ''MinThreshold'', r_index = OT ?oi t, r_lhs = l2, r_rel = r2, r_rhs = rhs2\<rparr>
          \<in> set MinThreshold"
    by auto
  from min_usage_rule_Inr [OF rule2] obtain minuse where
    minuse: "ps ''min_usage_if_used'' = Some minuse"
    and row2: "l2 = V (Use ?oi t)" "r2 = GreaterEq" "rhs2 = Mul (Const minuse) (V (IsUsed ?oi t))"
    by auto
  have min_in: "\<lparr>r_name = ''MinThreshold'', r_index = OT ?oi t, r_lhs = V (Use ?oi t),
        r_rel = GreaterEq, r_rhs = Mul (Const minuse) (V (IsUsed ?oi t))\<rparr> \<in> set (m_rows m)"
    using mem2 sub(2) by (auto simp: row2)
  have sem: "(a (IsUsed ?oi t) = 0 \<longrightarrow> a (Use ?oi t) = 0)
        \<and> (a (IsUsed ?oi t) = 1 \<longrightarrow> minuse \<le> a (Use ?oi t))
        \<and> (0 < a (Use ?oi t) \<longrightarrow> a (IsUsed ?oi t) = 1)" if feas: "feasible m a" for a
  proof -
    from feasible_row [OF feas link_in] have le: "a (Use ?oi t) \<le> big_m * a (IsUsed ?oi t)"
      by (simp add: satisfies_def link_def)
    from feasible_row [OF feas min_in] have ge: "minuse * a (IsUsed ?oi t) \<le> a (Use ?oi t)"
      by (simp add: satisfies_def)
    from feasible_Use_nonneg [OF assms(1) feas oi assms(4)] have nn: "0 \<le> a (Use ?oi t)" .
    from feasible_IsUsed_binary [OF assms(1) feas oi assms(4)]
    have bin: "a (IsUsed ?oi t) = 0 \<or> a (IsUsed ?oi t) = 1" .
    from le ge nn bin show ?thesis by auto
  qed
  have adequate: "a (Use ?oi t) \<le> big_m \<and> satisfies (a(IsUsed ?oi t := 1)) link"
    if mc: "build False oils prices ps = Inr mc" and feas: "feasible mc a"
      and cv: "ps ''max_veg_refine_per_month'' = Some cv"
      and cn: "ps ''max_nonveg_refine_per_month'' = Some cn"
      and cap: "oil_type x = ''Veg'' \<and> cv \<le> big_m \<or> oil_type x = ''NonVeg'' \<and> cn \<le> big_m"
    for mc cv cn a
  proof -
    from assms(4) have t: "t \<in> set (m_T mc)"
      by (simp add: f(2) build_fields(2) [OF mc])
    from cap capacity_respected [OF mc feas t assms(3)] cv cn
    have "a (Use ?oi t) \<le> big_m" by fastforce
    then show ?thesis by (simp add: satisfies_def link_def)
  qed
  from minuse link_in min_in sem adequate show ?thesis
    unfolding link_def by blast
qed

theorem discrete_linking_witness:
  "build True load_oils_data load_market_prices get_parameters = Inr reference_mip
   \<and> unique_labels load_oils_data load_market_prices
   \<and> \<lparr>oil_id = ''OIL3'', oil_type = ''NonVeg'', hardness = 5\<rparr> \<in> set load_oils_data
   \<and> 1 \<in> set (m_T reference_mip)
   \<and> feasible reference_mip steady
   \<and> steady (IsUsed ''OIL3'' 1) = 1 \<and> 20 \<le> steady (Use ''OIL3'' 1)
   \<and> build False load_oils_data load_market_prices get_parameters = Inr reference_lp
   \<and> feasible reference_lp steady
   \<and> get_parameters ''max_nonveg_refine_per_month'' = Some 250 \<and> 250 \<le> big_m
   \<and> steady (Use ''OIL3'' 1) \<le> big_m"
proof -
  let ?x = "\<lparr>oil_id = ''OIL3'', oil_type = ''NonVeg'', hardness = 5\<rparr>"
  have x: "?x \<in> set load_oils_data" by (simp add: load_oils_data_def)
  have t: "1 \<in> set (m_T reference_mip)" by (simp add: reference_mip_sets)
  have cv: "get_parameters ''max_veg_refine_per_month'' = Some 200"
    and cn: "get_parameters ''max_nonveg_refine_per_month'' = Some 250"
    by (simp_all add: get_parameters_def)
  have m: "250 \<le> big_m" by (simp add: big_m_def)
  from discrete_linking [OF reference_mip_builds reference_unique_labels x t]
  obtain minuse where
    minuse: "get_parameters ''min_usage_if_used'' = Some minuse"
    and sem: "\<forall>a. feasible reference_mip a \<longrightarrow>
          (a (IsUsed (oil_id ?x) 1) = 0 \<longrightarrow> a (Use (oil_id ?x) 1) = 0)
        \<and> (a (IsUsed (oil_id ?x) 1) = 1 \<longrightarrow> minuse \<le> a (Use (oil_id ?x) 1))
        \<and> (0 < a (Use (oil_id ?x) 1) \<longrightarrow> a (IsUsed (oil_id ?x) 1) = 1)"
    and adequate: "\<forall>mc cv cn a.
          build False load_oils_data load_market_prices get_parameters = Inr mc \<and> feasible mc a
        \<and> get_parameters ''max_veg_refine_per_month'' = Some cv
        \<and> get_parameters ''max_nonveg_refine_per_month'' = Some cn
        \<and> (oil_type ?x = ''Veg'' \<and> cv \<le> big_m \<or> oil_type ?x = ''NonVeg'' \<and> cn \<le> big_m)
        \<longrightarrow> a (Use (oil_id ?x) 1) \<le> big_m"
    by blast
  from minuse have "minuse = 20" by (simp add: get_parameters_def)
  moreover have used: "steady (IsUsed ''OIL3'' 1) = 1" by simp
  ultimately have "20 \<le> steady (Use ''OIL3'' 1)"
    using sem steady_feasible_mip by auto
  moreover have "steady (Use ''OIL3'' 1) \<le> big_m"
    using adequate [rule_format, of reference_lp steady 200 250]
      reference_lp_builds steady_feasible_lp cv cn m by simp
  ultimately show ?thesis
    using reference_mip_builds reference_unique_labels x t steady_feasible_mip used
      reference_lp_builds steady_feasible_lp cn m by blast
qed

text \<open>
  C3 requires more: that the Big-M constant of the linking row is at least the refining
  cap of every oil's category, so that no feasible plan is cut off. The builder does not
  read the caps for it: \<open>big_m\<close> is the number 250 written in \<^verbatim>\<open>build\<close>, below the
  comment that calls it the refining limit. With the non-vegetable cap raised to 300 both
  modes build, the plan that refines 300 tons of OIL3 every month is feasible for the
  continuous model, and the row \<open>Use[OIL3,1] <= 250 * IsUsed[OIL3,1]\<close> of the discrete
  model rejects it for either value of \<open>IsUsed[OIL3,1]\<close>.
\<close>

theorem big_m_cuts_off:
  "build False load_oils_data load_market_prices wide_parameters = Inr wide_lp
   \<and> build True load_oils_data load_market_prices wide_parameters = Inr wide_mip
   \<and> wide_parameters ''max_nonveg_refine_per_month'' = Some 300 \<and> big_m = 250
   \<and> feasible wide_lp heavy \<and> heavy (Use ''OIL3'' 1) = 300
   \<and> \<lparr>r_name = ''LinkVars'', r_index = OT ''OIL3'' 1, r_lhs = V (Use ''OIL3'' 1), r_rel = LessEq,
       r_rhs = Mul (Const big_m) (V (IsUsed ''OIL3'' 1))\<rparr> \<in> set (m_rows wide_mip)
   \<and> \<not> satisfies (heavy(IsUsed ''OIL3'' 1 := 1))
         \<lparr>r_name = ''LinkVars'', r_index = OT ''OIL3'' 1, r_lhs = V (Use ''OIL3'' 1),
          r_rel = LessEq, r_rhs = Mul (Const big_m) (V (IsUsed ''OIL3'' 1))\<rparr>
   \<and> \<not> satisfies (heavy(IsUsed ''OIL3'' 1 := 0))
         \<lparr>r_name = ''LinkVars'', r_index = OT ''OIL3'' 1, r_lhs = V (Use ''OIL3'' 1),
          r_rel = LessEq, r_rhs = Mul (Const big_m) (V (IsUsed ''OIL3'' 1))\<rparr>
   \<and> \<not> feasible wide_mip (heavy(IsUsed ''OIL3'' 1 := 1))
   \<and> \<not> feasible wide_mip (heavy(IsUsed ''OIL3'' 1 := 0))"
proof -
  let ?link = "\<lparr>r_name = ''LinkVars'', r_index = OT ''OIL3'' 1, r_lhs = V (Use ''OIL3'' 1),
          r_rel = LessEq, r_rhs = Mul (Const big_m) (V (IsUsed ''OIL3'' 1))\<rparr>"
  have s: "\<not> satisfies (heavy(IsUsed ''OIL3'' 1 := 1)) ?link"
    "\<not> satisfies (heavy(IsUsed ''OIL3'' 1 := 0)) ?link"
    by (simp_all add: satisfies_def big_m_def)
  with wide_link_row have f: "\<not> feasible wide_mip (heavy(IsUsed ''OIL3'' 1 := 1))"
    "\<not> feasible wide_mip (heavy(IsUsed ''OIL3'' 1 := 0))"
    by (auto dest: feasible_row)
  have "wide_parameters ''max_nonveg_refine_per_month'' = Some 300" "big_m = 250"
    "heavy (Use ''OIL3'' 1) = 300"
    by (simp_all add: wide_parameters_def big_m_def)
  with s f show ?thesis
    using wide_lp_builds wide_mip_builds heavy_feasible_lp wide_link_row by blast
qed

subsection \<open>C5: the discrete model refines the continuous one\<close>

text \<open>
  C5. For the same oils, prices and parameters, the discrete-mode model has every
  variable and every row of the continuous-mode model plus additional ones: its variables
  are those of the continuous model followed by one binary \<open>IsUsed[oi,t]\<close> per oil and
  period, none of which the continuous model declares, and its rows are those of the
  continuous model followed by the rows of the discrete block, none of which is a row of
  the continuous model: for every oil and period the \<open>LinkVars\<close> and \<open>MinThreshold\<close>
  rows, for every period the \<open>MaxIngredients\<close>, \<open>LogicVeg1\<close> and \<open>LogicVeg2\<close> rows (at
  least one additional row and variable as soon as there is a period). The objective is
  the same. So every feasible assignment of the discrete model is feasible for the
  continuous model, also when restricted to the shared variables, with the same objective
  value; therefore the optimal objective value of the discrete model is at most that of
  the continuous model.
\<close>

theorem discrete_refines_continuous:
  assumes "build True oils prices ps = Inr md"
    and "build False oils prices ps = Inr mc"
    and "unique_labels oils prices"
  shows "m_vars md = m_vars mc
           @ map (\<lambda>(oi, t). \<lparr>v_var = IsUsed oi t, v_domain = Binary, v_bounds = None\<rparr>)
               (List.product (m_O md) (m_T md))
    \<and> (\<forall>d\<in>set (m_vars mc). continuous_var (v_var d))
    \<and> (\<exists>extra. m_rows md = m_rows mc @ extra
          \<and> part2 ps (m_O md) (m_T md) = Inr extra
          \<and> (\<forall>y\<in>set extra. y \<notin> set (m_rows mc))
          \<and> (\<forall>oi\<in>set (m_O md). \<forall>t\<in>set (m_T md).
                \<lparr>r_name = ''LinkVars'', r_index = OT oi t, r_lhs = V (Use oi t), r_rel = LessEq,
                 r_rhs = Mul (Const big_m) (V (IsUsed oi t))\<rparr> \<in> set extra
              \<and> (\<exists>c. ps ''min_usage_if_used'' = Some c
                   \<and> \<lparr>r_name = ''MinThreshold'', r_index = OT oi t, r_lhs = V (Use oi t),
                       r_rel = GreaterEq, r_rhs = Mul (Const c) (V (IsUsed oi t))\<rparr> \<in> set extra))
          \<and> (\<forall>t\<in>set (m_T md).
                \<lparr>r_name = ''LogicVeg1'', r_index = Ti t, r_lhs = V (IsUsed ''VEG1'' t),
                 r_rel = LessEq, r_rhs = V (IsUsed ''OIL3'' t)\<rparr> \<in> set extra
              \<and> \<lparr>r_name = ''LogicVeg2'', r_index = Ti t, r_lhs = V (IsUsed ''VEG2'' t),
                 r_rel = LessEq, r_rhs = V (IsUsed ''OIL3'' t)\<rparr> \<in> set extra
              \<and> (\<exists>y\<in>set extra. r_name y = ''MaxIngredients'' \<and> r_index y = Ti t))
          \<and> (m_T md \<noteq> [] \<longrightarrow> extra \<noteq> [] \<and> List.product (m_O md) (m_T md) \<noteq> []))
    \<and> m_objective md = m_objective mc \<and> m_sense md = maximize \<and> m_sense mc = maximize
    \<and> (\<forall>a. feasible md a \<longrightarrow>
          feasible mc a \<and> objective_value mc a = objective_value md a
        \<and> feasible mc (restrict_continuous a)
        \<and> objective_value mc (restrict_continuous a) = objective_value md a)
    \<and> (\<forall>ad ac. optimal md ad \<and> optimal mc ac \<longrightarrow> objective_value md ad \<le> objective_value mc ac)"
proof -
  note modes = build_modes [OF assms(1,2)]
  note d = build_fields [OF assms(1)] and c = build_fields [OF assms(2)]
  note vars = build_modes_exact(1) [OF assms(1,2)]
  from build_modes_exact(2) [OF assms(1,2)] obtain extra where
    rows: "m_rows md = m_rows mc @ extra"
    and p2: "part2 ps (m_O md) (m_T md) = Inr extra"
    and p1: "part1 ps oils (m_O md) (m_T md) = Inr (m_rows mc)"
    by blast
  from c(5) have novars: "\<forall>d\<in>set (m_vars mc). continuous_var (v_var d)"
    by (auto dest: declare_vars_continuous)
  have fresh: "\<forall>y\<in>set extra. y \<notin> set (m_rows mc)"
  proof
    fix y
    assume "y \<in> set extra"
    with part2_names [OF p2] have "r_name y \<in> {''LinkVars'', ''MinThreshold'',
        ''MaxIngredients'', ''LogicVeg1'', ''LogicVeg2''}"
      by blast
    moreover have "r_name y \<in> {''Balance'', ''FinalStock'', ''VegCapacity'',
           ''NonVegCapacity'', ''ProductionDef'', ''HardnessMin'', ''HardnessMax''}"
      if "y \<in> set (m_rows mc)"
      using part1_names [OF p1] that by blast
    ultimately show "y \<notin> set (m_rows mc)" by auto
  qed
  note members = part2_members [OF p2]
  have nonempty: "extra \<noteq> [] \<and> List.product (m_O md) (m_T md) \<noteq> []" if "m_T md \<noteq> []"
  proof -
    from that have t: "hd (m_T md) \<in> set (m_T md)" by simp
    with members(2) have "extra \<noteq> []" by fastforce
    moreover from part2_Inr [OF p2] obtain V1 where
      "Constraint ''LogicVeg1'' Ti (m_T md) (logic_veg1_rule (m_O md) (m_T md)) = Inr V1"
      by blast
    from Constraint_member [OF this t] have "''VEG1'' \<in> set (m_O md)"
      by (auto simp: logic_veg1_rule_Inr)
    with t have "(''VEG1'', hd (m_T md)) \<in> set (List.product (m_O md) (m_T md))" by simp
    then have "List.product (m_O md) (m_T md) \<noteq> []" by (metis empty_iff list.set(1))
    ultimately show ?thesis by simp
  qed
  from c(4) have cont: "continuous_expr (m_objective mc)" by (rule objective_rule_continuous)
  have sem: "feasible mc a \<and> objective_value mc a = objective_value md a
        \<and> feasible mc (restrict_continuous a)
        \<and> objective_value mc (restrict_continuous a) = objective_value md a"
    if "feasible md a" for a
  proof -
    from assms(1,2) that have "feasible mc a" by (rule discrete_feasible_continuous)
    with restrict_feasible [OF assms(2)] show ?thesis
      by (simp add: objective_value_def modes(5) eval_restrict [OF cont])
  qed
  have opt: "objective_value md ad \<le> objective_value mc ac"
    if "optimal md ad \<and> optimal mc ac" for ad ac
  proof -
    from that have "feasible md ad"
      and best: "\<And>b. feasible mc b \<Longrightarrow> objective_value mc b \<le> objective_value mc ac"
      by (simp_all add: optimal_def)
    from sem [OF this(1)] best [of ad] show ?thesis by simp
  qed
  have ex: "\<exists>extra. m_rows md = m_rows mc @ extra
          \<and> part2 ps (m_O md) (m_T md) = Inr extra
          \<and> (\<forall>y\<in>set extra. y \<notin> set (m_rows mc))
          \<and> (\<forall>oi\<in>set (m_O md). \<forall>t\<in>set (m_T md).
                \<lparr>r_name = ''LinkVars'', r_index = OT oi t, r_lhs = V (Use oi t), r_rel = LessEq,
                 r_rhs = Mul (Const big_m) (V (IsUsed oi t))\<rparr> \<in> set extra
              \<and> (\<exists>c. ps ''min_usage_if_used'' = Some c
                   \<and> \<lparr>r_name = ''MinThreshold'', r_index = OT oi t, r_lhs = V (Use oi t),
                       r_rel = GreaterEq, r_rhs = Mul (Const c) (V (IsUsed oi t))\<rparr> \<in> set extra))
          \<and> (\<forall>t\<in>set (m_T md).
                \<lparr>r_name = ''LogicVeg1'', r_index = Ti t, r_lhs = V (IsUsed ''VEG1'' t),
                 r_rel = LessEq, r_rhs = V (IsUsed ''OIL3'' t)\<rparr> \<in> set extra
              \<and> \<lparr>r_name = ''LogicVeg2'', r_index = Ti t, r_lhs = V (IsUsed ''VEG2'' t),
                 r_rel = LessEq, r_rhs = V (IsUsed ''OIL3'' t)\<rparr> \<in> set extra
              \<and> (\<exists>y\<in>set extra. r_name y = ''MaxIngredients'' \<and> r_index y = Ti t))
          \<and> (m_T md \<noteq> [] \<longrightarrow> extra \<noteq> [] \<and> List.product (m_O md) (m_T md) \<noteq> [])"
    using rows p2 fresh members nonempty by (intro exI [of _ extra]) simp
  from vars novars ex modes(5) d(3) c(3) sem opt show ?thesis by blast
qed

theorem discrete_refines_continuous_witness:
  "build True load_oils_data january_prices slump_parameters = Inr slump_mip
   \<and> build False load_oils_data january_prices slump_parameters = Inr slump_lp
   \<and> unique_labels load_oils_data january_prices
   \<and> \<lparr>v_var = IsUsed ''VEG1'' 1, v_domain = Binary, v_bounds = None\<rparr> \<in> set (m_vars slump_mip)
   \<and> \<lparr>v_var = IsUsed ''VEG1'' 1, v_domain = Binary, v_bounds = None\<rparr> \<notin> set (m_vars slump_lp)
   \<and> \<lparr>r_name = ''LogicVeg1'', r_index = Ti 1, r_lhs = V (IsUsed ''VEG1'' 1),
       r_rel = LessEq, r_rhs = V (IsUsed ''OIL3'' 1)\<rparr> \<in> set (m_rows slump_mip)
   \<and> \<lparr>r_name = ''LogicVeg1'', r_index = Ti 1, r_lhs = V (IsUsed ''VEG1'' 1),
       r_rel = LessEq, r_rhs = V (IsUsed ''OIL3'' 1)\<rparr> \<notin> set (m_rows slump_lp)
   \<and> \<lparr>r_name = ''LinkVars'', r_index = OT ''VEG1'' 1, r_lhs = V (Use ''VEG1'' 1), r_rel = LessEq,
       r_rhs = Mul (Const big_m) (V (IsUsed ''VEG1'' 1))\<rparr> \<in> set (m_rows slump_mip)
   \<and> \<lparr>r_name = ''LinkVars'', r_index = OT ''VEG1'' 1, r_lhs = V (Use ''VEG1'' 1), r_rel = LessEq,
       r_rhs = Mul (Const big_m) (V (IsUsed ''VEG1'' 1))\<rparr> \<notin> set (m_rows slump_lp)
   \<and> optimal slump_mip idle \<and> optimal slump_lp idle
   \<and> objective_value slump_mip idle \<le> objective_value slump_lp idle
   \<and> feasible slump_mip idle \<and> feasible slump_lp idle
   \<and> feasible slump_lp (restrict_continuous idle)
   \<and> objective_value slump_lp (restrict_continuous idle) = objective_value slump_mip idle"
proof -
  let ?isused = "\<lparr>v_var = IsUsed ''VEG1'' 1, v_domain = Binary, v_bounds = None\<rparr>"
  let ?logic = "\<lparr>r_name = ''LogicVeg1'', r_index = Ti 1, r_lhs = V (IsUsed ''VEG1'' 1),
       r_rel = LessEq, r_rhs = V (IsUsed ''OIL3'' 1)\<rparr>"
  let ?link = "\<lparr>r_name = ''LinkVars'', r_index = OT ''VEG1'' 1, r_lhs = V (Use ''VEG1'' 1),
       r_rel = LessEq, r_rhs = Mul (Const big_m) (V (IsUsed ''VEG1'' 1))\<rparr>"
  have sets: "m_O slump_mip = [''VEG1'', ''VEG2'', ''OIL1'', ''OIL2'', ''OIL3'']"
    "m_T slump_mip = [1]"
    using build_fields(1,2) [OF slump_mip_builds] by (simp_all add: slump_defs)
  from discrete_refines_continuous [OF slump_mip_builds slump_lp_builds slump_unique_labels]
  obtain extra where
    vars: "m_vars slump_mip = m_vars slump_lp
           @ map (\<lambda>(oi, t). \<lparr>v_var = IsUsed oi t, v_domain = Binary, v_bounds = None\<rparr>)
               (List.product (m_O slump_mip) (m_T slump_mip))"
    and novars: "\<forall>d\<in>set (m_vars slump_lp). continuous_var (v_var d)"
    and rows: "m_rows slump_mip = m_rows slump_lp @ extra"
    and fresh: "\<forall>y\<in>set extra. y \<notin> set (m_rows slump_lp)"
    and link: "\<forall>oi\<in>set (m_O slump_mip). \<forall>t\<in>set (m_T slump_mip).
                \<lparr>r_name = ''LinkVars'', r_index = OT oi t, r_lhs = V (Use oi t), r_rel = LessEq,
                 r_rhs = Mul (Const big_m) (V (IsUsed oi t))\<rparr> \<in> set extra
              \<and> (\<exists>c. slump_parameters ''min_usage_if_used'' = Some c
                   \<and> \<lparr>r_name = ''MinThreshold'', r_index = OT oi t, r_lhs = V (Use oi t),
                       r_rel = GreaterEq, r_rhs = Mul (Const c) (V (IsUsed oi t))\<rparr> \<in> set extra)"
    and logic: "\<forall>t\<in>set (m_T slump_mip).
                \<lparr>r_name = ''LogicVeg1'', r_index = Ti t, r_lhs = V (IsUsed ''VEG1'' t),
                 r_rel = LessEq, r_rhs = V (IsUsed ''OIL3'' t)\<rparr> \<in> set extra
              \<and> \<lparr>r_name = ''LogicVeg2'', r_index = Ti t, r_lhs = V (IsUsed ''VEG2'' t),
                 r_rel = LessEq, r_rhs = V (IsUsed ''OIL3'' t)\<rparr> \<in> set extra
              \<and> (\<exists>y\<in>set extra. r_name y = ''MaxIngredients'' \<and> r_index y = Ti t)"
    and sem: "\<forall>a. feasible slump_mip a \<longrightarrow>
          feasible slump_lp a \<and> objective_value slump_lp a = objective_value slump_mip a
        \<and> feasible slump_lp (restrict_continuous a)
        \<and> objective_value slump_lp (restrict_continuous a) = objective_value slump_mip a"
    and opt: "\<forall>ad ac. optimal slump_mip ad \<and> optimal slump_lp ac
                \<longrightarrow> objective_value slump_mip ad \<le> objective_value slump_lp ac"
    by blast
  from vars have v1: "?isused \<in> set (m_vars slump_mip)" by (simp add: sets)
  from novars have v2: "?isused \<notin> set (m_vars slump_lp)" by fastforce
  from logic have "?logic \<in> set extra" by (simp add: sets)
  with rows fresh have r1: "?logic \<in> set (m_rows slump_mip)" "?logic \<notin> set (m_rows slump_lp)"
    by auto
  from link have "?link \<in> set extra" by (simp add: sets)
  with rows fresh have r2: "?link \<in> set (m_rows slump_mip)" "?link \<notin> set (m_rows slump_lp)"
    by auto
  from opt idle_optimal_slump_mip idle_optimal_slump_lp
  have o: "objective_value slump_mip idle \<le> objective_value slump_lp idle" by blast
  from sem idle_slump_mip
  have s: "feasible slump_lp (restrict_continuous idle)"
    "objective_value slump_lp (restrict_continuous idle) = objective_value slump_mip idle"
    by blast+
  from v1 v2 r1 r2 o s show ?thesis
    using slump_mip_builds slump_lp_builds slump_unique_labels idle_optimal_slump_mip
      idle_optimal_slump_lp idle_slump_mip idle_slump_lp(1) by blast
qed

subsection \<open>C8: a category without oils\<close>

text \<open>
  C8 asks that a catalog with an empty category still builds, with the capacity row of
  that category present as the vacuous \<open>0 <= cap\<close>. On the reference catalog without
  its vegetable oils this is not what happens: \<^verbatim>\<open>capacity_rule\<close> sums over no oil, the
  sum is the Python integer 0, its comparison with the cap is the Python value
  \<^verbatim>\<open>True\<close>, and the constraint constructor refuses it. The build ends with
  \<^verbatim>\<open>ValueError\<close> in both modes.
\<close>

theorem empty_category_fails:
  "filter (\<lambda>r. oil_type r = ''Veg'') nonveg_only = []
   \<and> build False nonveg_only load_market_prices get_parameters = Inl (ValueError ''VegCapacity'')
   \<and> build True nonveg_only load_market_prices get_parameters = Inl (ValueError ''VegCapacity'')
   \<and> capacity_rule nonveg_only (map oil_id nonveg_only) (p_index load_market_prices) 1 ''Veg'' 200
       = Inr (PyBool True)"
  by (simp add: nonveg_only_def build_defs reference_defs)

subsection \<open>C7: the logical implications\<close>

text \<open>
  C7 says that the pairs (dependent, prerequisite) of the implication rows are taken from
  the parameters. They are not: the parameters of \<^verbatim>\<open>data.py\<close> are eleven scalars and
  hold no pair, and the discrete model of the reference scenario has the rows
  \<open>IsUsed[VEG1,1] <= IsUsed[OIL3,1]\<close> and \<open>IsUsed[VEG2,1] <= IsUsed[OIL3,1]\<close> all the same.
\<close>

theorem logic_pairs_counterexample:
  "dom get_parameters =
     {''storage_cost_per_ton'', ''product_sales_price'', ''max_veg_refine_per_month'',
      ''max_nonveg_refine_per_month'', ''storage_capacity_per_oil'', ''initial_stock'',
      ''target_final_stock'', ''min_hardness'', ''max_hardness'', ''min_usage_if_used'',
      ''max_ingredients_per_month''}
   \<and> build True load_oils_data load_market_prices get_parameters = Inr reference_mip
   \<and> \<lparr>r_name = ''LogicVeg1'', r_index = Ti 1, r_lhs = V (IsUsed ''VEG1'' 1),
        r_rel = LessEq, r_rhs = V (IsUsed ''OIL3'' 1)\<rparr> \<in> set (m_rows reference_mip)
   \<and> \<lparr>r_name = ''LogicVeg2'', r_index = Ti 1, r_lhs = V (IsUsed ''VEG2'' 1),
        r_rel = LessEq, r_rhs = V (IsUsed ''OIL3'' 1)\<rparr> \<in> set (m_rows reference_mip)"
proof -
  have "dom get_parameters =
     {''storage_cost_per_ton'', ''product_sales_price'', ''max_veg_refine_per_month'',
      ''max_nonveg_refine_per_month'', ''storage_capacity_per_oil'', ''initial_stock'',
      ''target_final_stock'', ''min_hardness'', ''max_hardness'', ''min_usage_if_used'',
      ''max_ingredients_per_month''}"
    unfolding get_parameters_def dom_map_of_conv_image_fst by (simp add: insert_commute)
  moreover have "\<lparr>r_name = ''LogicVeg1'', r_index = Ti 1, r_lhs = V (IsUsed ''VEG1'' 1),
        r_rel = LessEq, r_rhs = V (IsUsed ''OIL3'' 1)\<rparr> \<in> set (m_rows reference_mip)
     \<and> \<lparr>r_name = ''LogicVeg2'', r_index = Ti 1, r_lhs = V (IsUsed ''VEG2'' 1),
        r_rel = LessEq, r_rhs = V (IsUsed ''OIL3'' 1)\<rparr> \<in> set (m_rows reference_mip)"
    by (simp add: reference_mip_def build_defs reference_defs)
  ultimately show ?thesis using reference_mip_builds by blast
qed

text \<open>
  C7, as the code has it. In discrete mode the implication rows of a built model are, for
  every period \<open>t\<close> and in the order of the periods, exactly
  \<open>IsUsed[VEG1,t] <= IsUsed[OIL3,t]\<close> (family \<open>LogicVeg1\<close>) and
  \<open>IsUsed[VEG2,t] <= IsUsed[OIL3,t]\<close> (family \<open>LogicVeg2\<close>), one row per period and pair,
  whatever the parameters are: the two pairs are written in the builder.
\<close>

theorem logic_pairs_fixed:
  assumes "build True oils prices ps = Inr m"
    and "unique_labels oils prices"
  shows "filter (\<lambda>r. r_name r = ''LogicVeg1'') (m_rows m)
       = map (\<lambda>t. \<lparr>r_name = ''LogicVeg1'', r_index = Ti t, r_lhs = V (IsUsed ''VEG1'' t),
                     r_rel = LessEq, r_rhs = V (IsUsed ''OIL3'' t)\<rparr>) (m_T m)
    \<and> filter (\<lambda>r. r_name r = ''LogicVeg2'') (m_rows m)
       = map (\<lambda>t. \<lparr>r_name = ''LogicVeg2'', r_index = Ti t, r_lhs = V (IsUsed ''VEG2'' t),
                     r_rel = LessEq, r_rhs = V (IsUsed ''OIL3'' t)\<rparr>) (m_T m)"
proof -
  from assms(1) obtain B F VC NC PD HMin HMax L M X V1 V2 where
    rows: "m_rows m = B @ F @ VC @ NC @ PD @ HMin @ HMax @ L @ M @ X @ V1 @ V2"
    and names: "\<forall>y\<in>set B. r_name y = ''Balance''"
    "\<forall>y\<in>set F. r_name y = ''FinalStock''"
    "\<forall>y\<in>set VC. r_name y = ''VegCapacity''"
    "\<forall>y\<in>set NC. r_name y = ''NonVegCapacity''"
    "\<forall>y\<in>set PD. r_name y = ''ProductionDef''"
    "\<forall>y\<in>set HMin. r_name y = ''HardnessMin''"
    "\<forall>y\<in>set HMax. r_name y = ''HardnessMax''"
    "\<forall>y\<in>set L. r_name y = ''LinkVars''"
    "\<forall>y\<in>set M. r_name y = ''MinThreshold''"
    "\<forall>y\<in>set X. r_name y = ''MaxIngredients''"
    and v1: "Constraint ''LogicVeg1'' Ti (m_T m) (logic_veg1_rule (m_O m) (m_T m)) = Inr V1"
    and v2: "Constraint ''LogicVeg2'' Ti (m_T m) (logic_veg2_rule (m_O m) (m_T m)) = Inr V2"
    by (rule build_rows_all)
  have V1: "V1 = map (\<lambda>t. \<lparr>r_name = ''LogicVeg1'', r_index = Ti t, r_lhs = V (IsUsed ''VEG1'' t),
                     r_rel = LessEq, r_rhs = V (IsUsed ''OIL3'' t)\<rparr>) (m_T m)"
    by (rule Constraint_map [OF v1]) (simp add: logic_veg1_rule_Inr)
  have V2: "V2 = map (\<lambda>t. \<lparr>r_name = ''LogicVeg2'', r_index = Ti t, r_lhs = V (IsUsed ''VEG2'' t),
                     r_rel = LessEq, r_rhs = V (IsUsed ''OIL3'' t)\<rparr>) (m_T m)"
    by (rule Constraint_map [OF v2]) (simp add: logic_veg2_rule_Inr)
  have n1: "\<forall>y\<in>set V1. r_name y = ''LogicVeg1''"
    and n2: "\<forall>y\<in>set V2. r_name y = ''LogicVeg2''"
    using v1 v2 by (auto dest: Constraint_name)
  have "filter (\<lambda>r. r_name r = ''LogicVeg1'') (m_rows m) = V1"
    unfolding rows filter_append
    by (simp add: filter_other_name [OF names(1)] filter_other_name [OF names(2)]
        filter_other_name [OF names(3)] filter_other_name [OF names(4)]
        filter_other_name [OF names(5)] filter_other_name [OF names(6)]
        filter_other_name [OF names(7)] filter_other_name [OF names(8)]
        filter_other_name [OF names(9)] filter_other_name [OF names(10)]
        filter_other_name [OF n2] filter_same_name [OF n1])
  moreover have "filter (\<lambda>r. r_name r = ''LogicVeg2'') (m_rows m) = V2"
    unfolding rows filter_append
    by (simp add: filter_other_name [OF names(1)] filter_other_name [OF names(2)]
        filter_other_name [OF names(3)] filter_other_name [OF names(4)]
        filter_other_name [OF names(5)] filter_other_name [OF names(6)]
        filter_other_name [OF names(7)] filter_other_name [OF names(8)]
        filter_other_name [OF names(9)] filter_other_name [OF names(10)]
        filter_other_name [OF n1] filter_same_name [OF n2])
  ultimately show ?thesis using V1 V2 by simp
qed

theorem logic_pairs_fixed_witness:
  "build True load_oils_data load_market_prices get_parameters = Inr reference_mip
   \<and> unique_labels load_oils_data load_market_prices
   \<and> filter (\<lambda>r. r_name r = ''LogicVeg1'') (m_rows reference_mip)
       = map (\<lambda>t. \<lparr>r_name = ''LogicVeg1'', r_index = Ti t, r_lhs = V (IsUsed ''VEG1'' t),
                     r_rel = LessEq, r_rhs = V (IsUsed ''OIL3'' t)\<rparr>) [1, 2, 3, 4, 5, 6]
   \<and> filter (\<lambda>r. r_name r = ''LogicVeg2'') (m_rows reference_mip)
       = map (\<lambda>t. \<lparr>r_name = ''LogicVeg2'', r_index = Ti t, r_lhs = V (IsUsed ''VEG2'' t),
                     r_rel = LessEq, r_rhs = V (IsUsed ''OIL3'' t)\<rparr>) [1, 2, 3, 4, 5, 6]"
  using logic_pairs_fixed [OF reference_mip_builds reference_unique_labels]
    reference_mip_builds reference_unique_labels
  unfolding reference_mip_sets by blast

subsection \<open>C10: the oil ids the discrete mode needs\<close>

text \<open>
  C10 says that a discrete-mode build produces a model only when VEG1, VEG2 and OIL3 are
  in the catalog. With an empty catalog and a price table without periods no rule is ever
  called, and the build returns the empty model.
\<close>

theorem discrete_needs_literal_ids_counterexample:
  "build True [] (load_market_prices\<lparr>p_index := []\<rparr>) get_parameters
     = Inr \<lparr>m_T = [], m_O = [], m_vars = [], m_rows = [], m_objective = Const 0,
            m_sense = maximize, m_value = Map.empty\<rparr>
   \<and> ''VEG1'' \<notin> oil_id ` set []"
  by (simp add: build_defs declare_vars_def reference_defs)

text \<open>
  C10, as the code has it. A discrete-mode model has for every period the rows
  \<open>IsUsed[VEG1,t] <= IsUsed[OIL3,t]\<close> and \<open>IsUsed[VEG2,t] <= IsUsed[OIL3,t]\<close>. Unless the
  catalog and the period set are both empty, such a model is produced only when VEG1, VEG2
  and OIL3 are all in the catalog, and the build raises an exception for a catalog that
  lacks one of them. The continuous mode has no such requirement: the reference catalog
  without VEG1 builds.
\<close>

theorem discrete_needs_literal_ids:
  assumes "unique_labels oils prices"
  shows "(\<forall>m. build True oils prices ps = Inr m \<longrightarrow>
           (\<forall>t\<in>set (m_T m).
              \<lparr>r_name = ''LogicVeg1'', r_index = Ti t, r_lhs = V (IsUsed ''VEG1'' t),
               r_rel = LessEq, r_rhs = V (IsUsed ''OIL3'' t)\<rparr> \<in> set (m_rows m)
            \<and> \<lparr>r_name = ''LogicVeg2'', r_index = Ti t, r_lhs = V (IsUsed ''VEG2'' t),
               r_rel = LessEq, r_rhs = V (IsUsed ''OIL3'' t)\<rparr> \<in> set (m_rows m))
         \<and> (oils \<noteq> [] \<or> p_index prices \<noteq> [] \<longrightarrow>
              ''VEG1'' \<in> oil_id ` set oils \<and> ''VEG2'' \<in> oil_id ` set oils
            \<and> ''OIL3'' \<in> oil_id ` set oils))
    \<and> ((oils \<noteq> [] \<or> p_index prices \<noteq> [])
         \<and> \<not> {''VEG1'', ''VEG2'', ''OIL3''} \<subseteq> oil_id ` set oils
         \<longrightarrow> isl (build True oils prices ps))
    \<and> ''VEG1'' \<notin> oil_id ` set without_veg1
    \<and> \<not> isl (build False without_veg1 load_market_prices get_parameters)"
proof -
  have success: "(\<forall>t\<in>set (m_T m).
              \<lparr>r_name = ''LogicVeg1'', r_index = Ti t, r_lhs = V (IsUsed ''VEG1'' t),
               r_rel = LessEq, r_rhs = V (IsUsed ''OIL3'' t)\<rparr> \<in> set (m_rows m)
            \<and> \<lparr>r_name = ''LogicVeg2'', r_index = Ti t, r_lhs = V (IsUsed ''VEG2'' t),
               r_rel = LessEq, r_rhs = V (IsUsed ''OIL3'' t)\<rparr> \<in> set (m_rows m))
         \<and> (oils \<noteq> [] \<or> p_index prices \<noteq> [] \<longrightarrow>
              ''VEG1'' \<in> oil_id ` set oils \<and> ''VEG2'' \<in> oil_id ` set oils
            \<and> ''OIL3'' \<in> oil_id ` set oils)"
    if m: "build True oils prices ps = Inr m" for m
  proof -
    note f = build_fields [OF m]
    from m obtain V1 V2 where
      v1: "Constraint ''LogicVeg1'' Ti (m_T m) (logic_veg1_rule (m_O m) (m_T m)) = Inr V1"
      and v2: "Constraint ''LogicVeg2'' Ti (m_T m) (logic_veg2_rule (m_O m) (m_T m)) = Inr V2"
      and sub: "set V1 \<subseteq> set (m_rows m)" "set V2 \<subseteq> set (m_rows m)"
      by (rule part2_rows)
    have rows: "\<lparr>r_name = ''LogicVeg1'', r_index = Ti t, r_lhs = V (IsUsed ''VEG1'' t),
               r_rel = LessEq, r_rhs = V (IsUsed ''OIL3'' t)\<rparr> \<in> set (m_rows m)
            \<and> \<lparr>r_name = ''LogicVeg2'', r_index = Ti t, r_lhs = V (IsUsed ''VEG2'' t),
               r_rel = LessEq, r_rhs = V (IsUsed ''OIL3'' t)\<rparr> \<in> set (m_rows m)
            \<and> ''VEG1'' \<in> set (m_O m) \<and> ''VEG2'' \<in> set (m_O m) \<and> ''OIL3'' \<in> set (m_O m)"
      if t: "t \<in> set (m_T m)" for t
      using Constraint_member [OF v1 t] Constraint_member [OF v2 t] sub
      by (auto simp: logic_veg1_rule_Inr logic_veg2_rule_Inr)
    have periods: "m_T m \<noteq> []" if "oils \<noteq> []"
    proof -
      from m obtain F where
        c: "Constraint ''FinalStock'' Oi (m_O m) (final_stock_rule ps (m_O m) (m_T m)) = Inr F"
        by (rule part1_rows)
      from that have "m_O m \<noteq> []" by (simp add: f(1))
      then have "hd (m_O m) \<in> set (m_O m)" by simp
      from Constraint_member [OF c this] obtain l r rhs where
        "final_stock_rule ps (m_O m) (m_T m) (hd (m_O m)) = Inr (Relational l r rhs)"
        by blast
      from final_stock_rule_Inr [OF this] show ?thesis by blast
    qed
    have "''VEG1'' \<in> set (m_O m) \<and> ''VEG2'' \<in> set (m_O m) \<and> ''OIL3'' \<in> set (m_O m)"
      if "oils \<noteq> [] \<or> p_index prices \<noteq> []"
    proof -
      from that periods have "m_T m \<noteq> []" by (auto simp: f(2))
      then have "hd (m_T m) \<in> set (m_T m)" by simp
      from rows [OF this] show ?thesis by blast
    qed
    with rows show ?thesis by (simp add: f(1))
  qed
  have failure: "isl (build True oils prices ps)"
    if "(oils \<noteq> [] \<or> p_index prices \<noteq> [])
         \<and> \<not> {''VEG1'', ''VEG2'', ''OIL3''} \<subseteq> oil_id ` set oils"
  proof (cases "build True oils prices ps")
    case (Inl e)
    then show ?thesis by simp
  next
    case (Inr m)
    from success [OF Inr] that show ?thesis by auto
  qed
  have "''VEG1'' \<notin> oil_id ` set without_veg1"
    by (simp add: without_veg1_def load_oils_data_def)
  moreover have "\<not> isl (build False without_veg1 load_market_prices get_parameters)"
    by (simp add: without_veg1_def build_defs reference_defs)
  ultimately show ?thesis using success failure by blast
qed

theorem discrete_needs_literal_ids_witness:
  "unique_labels load_oils_data load_market_prices
   \<and> build True load_oils_data load_market_prices get_parameters = Inr reference_mip
   \<and> 1 \<in> set (m_T reference_mip)
   \<and> \<lparr>r_name = ''LogicVeg1'', r_index = Ti 1, r_lhs = V (IsUsed ''VEG1'' 1),
       r_rel = LessEq, r_rhs = V (IsUsed ''OIL3'' 1)\<rparr> \<in> set (m_rows reference_mip)
   \<and> ''VEG1'' \<in> oil_id ` set load_oils_data \<and> ''VEG2'' \<in> oil_id ` set load_oils_data
   \<and> ''OIL3'' \<in> oil_id ` set load_oils_data
   \<and> unique_labels without_veg1 load_market_prices
   \<and> without_veg1 \<noteq> [] \<and> ''VEG1'' \<notin> oil_id ` set without_veg1
   \<and> isl (build True without_veg1 load_market_prices get_parameters)
   \<and> \<not> isl (build False without_veg1 load_market_prices get_parameters)"
proof -
  have t: "1 \<in> set (m_T reference_mip)" by (simp add: reference_mip_sets)
  have ne: "load_oils_data \<noteq> []" by (simp add: load_oils_data_def)
  from discrete_needs_literal_ids [OF reference_unique_labels, of get_parameters]
    reference_mip_builds t ne
  have "\<lparr>r_name = ''LogicVeg1'', r_index = Ti 1, r_lhs = V (IsUsed ''VEG1'' 1),
       r_rel = LessEq, r_rhs = V (IsUsed ''OIL3'' 1)\<rparr> \<in> set (m_rows reference_mip)"
    and "''VEG1'' \<in> oil_id ` set load_oils_data \<and> ''VEG2'' \<in> oil_id ` set load_oils_data
      \<and> ''OIL3'' \<in> oil_id ` set load_oils_data"
    by blast+
  moreover have u: "unique_labels without_veg1 load_market_prices"
    and ne': "without_veg1 \<noteq> []"
    by (simp_all add: unique_labels_def without_veg1_def reference_defs)
  moreover from discrete_needs_literal_ids [OF u, of get_parameters] ne'
  have "''VEG1'' \<notin> oil_id ` set without_veg1"
    and "isl (build True without_veg1 load_market_prices get_parameters)"
    and "\<not> isl (build False without_veg1 load_market_prices get_parameters)"
    by blast+
  ultimately show ?thesis
    using reference_unique_labels reference_mip_builds t by blast
qed

subsection \<open>C9: result extraction\<close>

text \<open>
  C9 says that result extraction is pure and leaves the model object and every other
  state unchanged. In the source the extraction is the second half of \<^verbatim>\<open>solve\<close>: on
  the object of the first scenario, \<^verbatim>\<open>solve\<close> replaces the empty \<^verbatim>\<open>result_data\<close>,
  the model it holds afterwards carries the values the solver loaded, and what it
  returns is the solver's result, not the records.
\<close>

theorem solve_not_pure_counterexample:
  "self_result_data lp_wrapper = []
   \<and> self_result_data (snd (solve idle_solver lp_wrapper)) \<noteq> self_result_data lp_wrapper
   \<and> self_model (snd (solve idle_solver lp_wrapper)) \<noteq> self_model lp_wrapper
   \<and> fst (solve idle_solver lp_wrapper) = Inr ''optimal''"
proof -
  have "extract_results (reference_lp\<lparr>m_value := \<lambda>v. Some (idle v)\<rparr>) \<noteq> Inr []"
    using extract_results_Inr [of "reference_lp\<lparr>m_value := \<lambda>v. Some (idle v)\<rparr>"]
    by (simp add: reference_lp_sets)
  moreover have "\<exists>rs. extract_results (reference_lp\<lparr>m_value := \<lambda>v. Some (idle v)\<rparr>) = Inr rs"
    using extract_results_Inr [of "reference_lp\<lparr>m_value := \<lambda>v. Some (idle v)\<rparr>"]
    by simp
  moreover have "m_value reference_lp = Map.empty"
    using reference_lp_builds by (rule build_no_values)
  then have "reference_lp\<lparr>m_value := \<lambda>v. Some (idle v)\<rparr> \<noteq> reference_lp"
    by (metis model.select_convs(7) model.surjective model.update_convs(7) option.simps(3))
  ultimately show ?thesis
    by (auto simp: solve_def Let_def lp_wrapper_fields idle_solver_def)
qed

text \<open>
  C9, as the code has it. When the solver returns and has given a value to every
  \<open>Buy\<close>, \<open>Use\<close> and \<open>Stock\<close> variable, \<^verbatim>\<open>solve\<close> returns the solver's result
  and stores in \<^verbatim>\<open>result_data\<close> an ordered sequence with exactly one record
  (Month, Oil, Buy, Use, Stock) per pair of a period and an oil, periods first, in the
  order of the two sets. It changes \<^verbatim>\<open>result_data\<close> and the values held by the model's
  variables; the oils, the prices and the parameters of the object are unchanged.
\<close>

theorem solve_stores_records:
  assumes "self_model self = Some m"
    and "solver m = Inr (result, vals)"
    and "\<forall>t\<in>set (m_T m). \<forall>oi\<in>set (m_O m).
           vals (Buy oi t) \<noteq> None \<and> vals (Use oi t) \<noteq> None \<and> vals (Stock oi t) \<noteq> None"
    and "distinct (m_T m)" and "distinct (m_O m)"
  shows "\<exists>self'. solve solver self = (Inr result, self')
    \<and> self_result_data self' = map (\<lambda>(t, oi).
            \<lparr>res_Month = t, res_Oil = oi, res_Buy = the (vals (Buy oi t)),
             res_Use = the (vals (Use oi t)), res_Stock = the (vals (Stock oi t))\<rparr>)
          (List.product (m_T m) (m_O m))
    \<and> map (\<lambda>r. (res_Month r, res_Oil r)) (self_result_data self') = List.product (m_T m) (m_O m)
    \<and> distinct (map (\<lambda>r. (res_Month r, res_Oil r)) (self_result_data self'))
    \<and> length (self_result_data self') = length (m_T m) * length (m_O m)
    \<and> self_model self' = Some (m\<lparr>m_value := vals\<rparr>)
    \<and> self_oils self' = self_oils self \<and> self_prices self' = self_prices self
    \<and> self_params self' = self_params self"
proof -
  let ?m' = "m\<lparr>m_value := vals\<rparr>"
  let ?records = "map (\<lambda>(t, oi).
            \<lparr>res_Month = t, res_Oil = oi, res_Buy = the (vals (Buy oi t)),
             res_Use = the (vals (Use oi t)), res_Stock = the (vals (Stock oi t))\<rparr>)
          (List.product (m_T m) (m_O m))"
  let ?self' = "self\<lparr>self_model := Some ?m', self_result_data := ?records\<rparr>"
  from assms(3) have "extract_results ?m' = Inr ?records"
    using extract_results_Inr [of ?m'] by simp
  with assms(1,2) have run: "solve solver self = (Inr result, ?self')"
    by (simp add: solve_def Let_def)
  have keys: "map (\<lambda>r. (res_Month r, res_Oil r)) ?records = List.product (m_T m) (m_O m)"
    by (simp add: comp_def case_prod_unfold)
  have "distinct (List.product (m_T m) (m_O m))"
    using assms(4,5) by (rule distinct_product)
  with keys have "distinct (map (\<lambda>r. (res_Month r, res_Oil r)) ?records)" by simp
  with run keys show ?thesis by (intro exI [of _ ?self']) (simp add: length_product)
qed

theorem solve_stores_records_witness:
  "self_model lp_wrapper = Some reference_lp
   \<and> idle_solver reference_lp = Inr (''optimal'', \<lambda>v. Some (idle v))
   \<and> distinct (m_T reference_lp) \<and> distinct (m_O reference_lp)
   \<and> fst (solve idle_solver lp_wrapper) = Inr ''optimal''
   \<and> length (self_result_data (snd (solve idle_solver lp_wrapper))) = 30
   \<and> hd (self_result_data (snd (solve idle_solver lp_wrapper)))
       = \<lparr>res_Month = 1, res_Oil = ''VEG1'', res_Buy = 0, res_Use = 0, res_Stock = 500\<rparr>
   \<and> self_params (snd (solve idle_solver lp_wrapper)) = get_parameters"
proof -
  have s: "idle_solver reference_lp = Inr (''optimal'', \<lambda>v. Some (idle v))"
    by (simp add: idle_solver_def)
  have v: "\<forall>t\<in>set (m_T reference_lp). \<forall>oi\<in>set (m_O reference_lp).
           (\<lambda>v. Some (idle v)) (Buy oi t) \<noteq> None \<and> (\<lambda>v. Some (idle v)) (Use oi t) \<noteq> None
         \<and> (\<lambda>v. Some (idle v)) (Stock oi t) \<noteq> None"
    by simp
  have d: "distinct (m_T reference_lp)" "distinct (m_O reference_lp)"
    by (simp_all add: reference_lp_sets)
  from solve_stores_records [of lp_wrapper reference_lp idle_solver "''optimal''"
      "\<lambda>v. Some (idle v)", OF lp_wrapper_fields(1) s v d]
  obtain self' where run: "solve idle_solver lp_wrapper = (Inr ''optimal'', self')"
    and data: "self_result_data self' = map (\<lambda>(t, oi).
            \<lparr>res_Month = t, res_Oil = oi, res_Buy = the (Some (idle (Buy oi t))),
             res_Use = the (Some (idle (Use oi t))), res_Stock = the (Some (idle (Stock oi t)))\<rparr>)
          (List.product (m_T reference_lp) (m_O reference_lp))"
    and len: "length (self_result_data self') = length (m_T reference_lp) * length (m_O reference_lp)"
    and ps: "self_params self' = self_params lp_wrapper"
    by blast
  from data have "hd (self_result_data self')
       = \<lparr>res_Month = 1, res_Oil = ''VEG1'', res_Buy = 0, res_Use = 0, res_Stock = 500\<rparr>"
    by (simp add: reference_lp_sets)
  moreover from len have "length (self_result_data self') = 30"
    by (simp add: reference_lp_sets)
  ultimately show ?thesis
    using run ps s d lp_wrapper_fields(1,5) by simp
qed

subsection \<open>C6: incomplete reference data\<close>

text \<open>
  C6 says that a build on incomplete data fails with a \<^verbatim>\<open>ValidationError\<close>. The source
  has no such exception and no validation step. Without the parameter
  \<open>initial_stock\<close> the build of the first scenario ends with the \<^verbatim>\<open>KeyError\<close> of the
  dictionary lookup in \<^verbatim>\<open>balance_rule\<close>, and without a price column for OIL3 with the
  \<^verbatim>\<open>KeyError\<close> of \<^verbatim>\<open>prices.loc\<close> in \<^verbatim>\<open>objective_rule\<close>.
\<close>

theorem validation_error_counterexample:
  "build False load_oils_data load_market_prices (get_parameters(''initial_stock'' := None))
     = Inl (KeyError (Param ''initial_stock''))
   \<and> build False load_oils_data
        (load_market_prices\<lparr>p_columns := [''VEG1'', ''VEG2'', ''OIL1'', ''OIL2'']\<rparr>) get_parameters
     = Inl (KeyError (Column ''OIL3''))"
  by (simp add: build_defs reference_defs)

text \<open>
  C6, as the code has it. With at least one oil and one period, a build fails whenever
  the parameters lack a key the selected mode reads, and with at least one period it fails
  whenever an oil has no column in the price table. The exception is the one of the first
  lookup that fails: when the data is complete but for one key or one column, it is the
  \<^verbatim>\<open>KeyError\<close> of that key or column. A failed build leaves \<^verbatim>\<open>self.model\<close> unset
  and nothing is defaulted. For well-formed data (\<open>well_formed\<close>) the build succeeds and
  \<^verbatim>\<open>self.model\<close> holds the model. Whether oil ids are unique is not checked.
\<close>

theorem build_fails_or_succeeds:
  assumes "unique_labels oils prices"
  shows "(oils \<noteq> [] \<and> p_index prices \<noteq> [] \<and> (\<exists>k\<in>set (required_keys flag). ps k = None)
          \<longrightarrow> isl (build flag oils prices ps))
    \<and> (p_index prices \<noteq> [] \<and> (\<exists>r\<in>set oils. oil_id r \<notin> set (p_columns prices))
          \<longrightarrow> isl (build flag oils prices ps))
    \<and> (\<forall>m. build flag oils prices ps = Inr m \<and> oils \<noteq> [] \<and> p_index prices \<noteq> [] \<longrightarrow>
          (\<forall>k\<in>set (required_keys flag).
             build flag oils prices (ps(k := None)) = Inl (KeyError (Param k)))
        \<and> (\<forall>r\<in>set oils.
             build flag oils (prices\<lparr>p_columns := removeAll (oil_id r) (p_columns prices)\<rparr>) ps
               = Inl (KeyError (Column (oil_id r)))))
    \<and> (isl (build flag oils prices ps) \<longrightarrow>
          build_method flag (init oils prices ps)
            = (Inl (projl (build flag oils prices ps)), init oils prices ps)
        \<and> self_model (snd (build_method flag (init oils prices ps))) = None)
    \<and> (well_formed flag oils prices ps \<longrightarrow>
          (\<exists>m. build flag oils prices ps = Inr m
             \<and> self_model (snd (build_method flag (init oils prices ps))) = Some m))"
proof -
  have a: "isl (build flag oils prices ps)"
    if "oils \<noteq> [] \<and> p_index prices \<noteq> [] \<and> (\<exists>k\<in>set (required_keys flag). ps k = None)"
  proof (cases "build flag oils prices ps")
    case (Inl e)
    then show ?thesis by simp
  next
    case (Inr m)
    with that build_reads_keys [OF Inr] show ?thesis by blast
  qed
  have b: "isl (build flag oils prices ps)"
    if "p_index prices \<noteq> [] \<and> (\<exists>r\<in>set oils. oil_id r \<notin> set (p_columns prices))"
  proof (cases "build flag oils prices ps")
    case (Inl e)
    then show ?thesis by simp
  next
    case (Inr m)
    with that build_reads_columns [OF Inr] show ?thesis by blast
  qed
  have c: "(\<forall>k\<in>set (required_keys flag).
             build flag oils prices (ps(k := None)) = Inl (KeyError (Param k)))
        \<and> (\<forall>r\<in>set oils.
             build flag oils (prices\<lparr>p_columns := removeAll (oil_id r) (p_columns prices)\<rparr>) ps
               = Inl (KeyError (Column (oil_id r))))"
    if "build flag oils prices ps = Inr m \<and> oils \<noteq> [] \<and> p_index prices \<noteq> []" for m
    using that missing_key_KeyError [of flag oils prices ps m]
      missing_column_KeyError [of flag oils prices ps m] by blast
  have d: "build_method flag (init oils prices ps)
            = (Inl (projl (build flag oils prices ps)), init oils prices ps)
        \<and> self_model (snd (build_method flag (init oils prices ps))) = None"
    if "isl (build flag oils prices ps)"
    using build_method_Inl [OF that] by simp
  have e: "\<exists>m. build flag oils prices ps = Inr m
             \<and> self_model (snd (build_method flag (init oils prices ps))) = Some m"
    if "well_formed flag oils prices ps"
    using build_ok [OF that] build_method_Inr by blast
  from a b c d e show ?thesis by blast
qed

theorem build_fails_or_succeeds_witness:
  "unique_labels load_oils_data load_market_prices
   \<and> well_formed True load_oils_data load_market_prices get_parameters
   \<and> build True load_oils_data load_market_prices get_parameters = Inr reference_mip
   \<and> self_model (snd (build_method True (init load_oils_data load_market_prices get_parameters)))
       = Some reference_mip
   \<and> build True load_oils_data load_market_prices (get_parameters(''min_usage_if_used'' := None))
       = Inl (KeyError (Param ''min_usage_if_used''))
   \<and> build True load_oils_data
        (load_market_prices\<lparr>p_columns := removeAll ''OIL3'' (p_columns load_market_prices)\<rparr>)
        get_parameters
       = Inl (KeyError (Column ''OIL3''))
   \<and> self_model (snd (build_method True
        (init load_oils_data load_market_prices (get_parameters(''min_usage_if_used'' := None)))))
       = None"
proof -
  note inst = build_fails_or_succeeds [OF reference_unique_labels, of True get_parameters]
  have ne: "load_oils_data \<noteq> []" "p_index load_market_prices \<noteq> []"
    by (simp_all add: reference_defs)
  have k: "''min_usage_if_used'' \<in> set (required_keys True)" by (simp add: required_keys_def)
  have r: "\<lparr>oil_id = ''OIL3'', oil_type = ''NonVeg'', hardness = 5\<rparr> \<in> set load_oils_data"
    by (simp add: load_oils_data_def)
  from inst reference_well_formed reference_mip_builds
  have ok: "self_model (snd (build_method True (init load_oils_data load_market_prices
      get_parameters))) = Some reference_mip"
    by auto
  from inst reference_mip_builds ne k
  have key: "build True load_oils_data load_market_prices (get_parameters(''min_usage_if_used'' := None))
       = Inl (KeyError (Param ''min_usage_if_used''))"
    by blast
  from inst reference_mip_builds ne r
  have "build True load_oils_data
        (load_market_prices\<lparr>p_columns := removeAll
           (oil_id \<lparr>oil_id = ''OIL3'', oil_type = ''NonVeg'', hardness = 5\<rparr>)
           (p_columns load_market_prices)\<rparr>) get_parameters
       = Inl (KeyError (Column (oil_id \<lparr>oil_id = ''OIL3'', oil_type = ''NonVeg'', hardness = 5\<rparr>)))"
    by blast
  then have col: "build True load_oils_data
        (load_market_prices\<lparr>p_columns := removeAll ''OIL3'' (p_columns load_market_prices)\<rparr>)
        get_parameters = Inl (KeyError (Column ''OIL3''))"
    by simp
  from key have "isl (build True load_oils_data load_market_prices
      (get_parameters(''min_usage_if_used'' := None)))" by simp
  with build_fails_or_succeeds [OF reference_unique_labels, of True
      "get_parameters(''min_usage_if_used'' := None)"]
  have none: "self_model (snd (build_method True
        (init load_oils_data load_market_prices (get_parameters(''min_usage_if_used'' := None)))))
       = None"
    by blast
  from ok key col none show ?thesis
    using reference_unique_labels reference_well_formed reference_mip_builds by blast
qed

end
